theory Spec2Isabelle
  imports Complex_Main "HOL-Library.Word" "HOL-Library.Signed_Division"
begin

unbundle bit_operations_syntax

section \<open>Arithmetic conventions\<close>

text \<open>
  The sources compute on C++ \<^verbatim>\<open>double\<close> and \<^verbatim>\<open>int\<close>.  An \<^verbatim>\<open>int\<close> is modelled as
  an \<^typ>\<open>int\<close>; the counters of the sources are bounded by the iteration budget or by the
  raster size, far inside 32 bits, so no wrap-around is written out.  Integer division
  and remainder are the truncating ones of C++ (\<open>sdiv\<close>, \<open>smod\<close>).

  A finite \<^verbatim>\<open>double\<close> is modelled as the \<^typ>\<open>real\<close> it denotes.  The escape-time
  evaluators, the mapping of a pixel to its coordinate and the synthesizer are modelled
  in exact arithmetic.  The colour conversion, the wheel event and the iteration
  controller are modelled with the rounding of the machine: every operation yields the
  exact result rounded to the nearest binary64 value, ties to even (\<open>fl\<close> below), as IEEE
  754 prescribes for \<^verbatim>\<open>+\<close>, \<^verbatim>\<open>-\<close>, \<^verbatim>\<open>*\<close>, \<^verbatim>\<open>/\<close> and \<^verbatim>\<open>sqrt\<close>.  Infinities and
  NaN are outside the model: statements about rounded arithmetic bound the magnitudes
  of their inputs so that no operation of the source overflows.

  A conversion from \<^verbatim>\<open>double\<close> to an integer type truncates toward zero and has
  undefined behaviour in C++ when the truncated value does not fit the target type.
  Where a value is converted to \<^verbatim>\<open>int\<close> or \<^verbatim>\<open>Sint16\<close> the conversion is a partial
  function and \<open>None\<close> stands for the undefined behaviour.
\<close>

definition trunc :: "real \<Rightarrow> int" where
  "trunc d = (if 0 \<le> d then \<lfloor>d\<rfloor> else \<lceil>d\<rceil>)"

definition double_to_int :: "real \<Rightarrow> int option" where
  "double_to_int d =
     (let t = trunc d
      in if - 2147483648 \<le> t \<and> t \<le> 2147483647 then Some t else None)"

definition double_to_Sint16 :: "real \<Rightarrow> 16 word option" where
  "double_to_Sint16 d =
     (let t = trunc d
      in if - 32768 \<le> t \<and> t \<le> 32767 then Some (word_of_int t) else None)"

text \<open>
  The colour channels are \<^verbatim>\<open>Uint8\<close> variables assigned from \<^verbatim>\<open>double\<close> expressions
  whose values lie between 0 and 255 (see \<open>pixelColour\<close>), so this conversion is total.
\<close>

definition double_to_Uint8 :: "real \<Rightarrow> 8 word" where
  "double_to_Uint8 d = word_of_int (trunc d)"

subsection \<open>Rounding to binary64\<close>

text \<open>
  \<open>rne\<close> rounds a real to the nearest integer, a tie to the even one.  The binade of
  \<open>x\<close> is the exponent \<open>e\<close> with \<open>2\<^sup>e \<le> |x| < 2\<^sup>e\<^sup>+\<^sup>1\<close>, but at least -1022 (below that
  the values are subnormal and equally spaced); neighbouring binary64 values in a binade
  are \<open>ulp\<close> apart, 52 binary digits below the binade.  \<open>fl x\<close> is the binary64 value
  nearest to \<open>x\<close>.
\<close>

definition rne :: "real \<Rightarrow> int" where
  "rne r =
     (let f = \<lfloor>r\<rfloor>;
          d = r - of_int f
      in if d < 1 / 2 then f
         else if 1 / 2 < d then f + 1
         else if even f then f else f + 1)"

definition binade :: "real \<Rightarrow> int" where
  "binade x = max \<lfloor>log 2 \<bar>x\<bar>\<rfloor> (- 1022)"

definition ulp :: "real \<Rightarrow> real" where
  "ulp x = 2 powi (binade x - 52)"

definition fl :: "real \<Rightarrow> real" where
  "fl x = sgn x * (of_int (rne (\<bar>x\<bar> / ulp x)) * ulp x)"

text \<open>The operations of \<^verbatim>\<open>double\<close>: the exact result, rounded.\<close>

definition dadd :: "real \<Rightarrow> real \<Rightarrow> real" where
  "dadd a b = fl (a + b)"

definition dsub :: "real \<Rightarrow> real \<Rightarrow> real" where
  "dsub a b = fl (a - b)"

definition dmul :: "real \<Rightarrow> real \<Rightarrow> real" where
  "dmul a b = fl (a * b)"

definition ddiv :: "real \<Rightarrow> real \<Rightarrow> real" where
  "ddiv a b = fl (a / b)"

definition dsqrt :: "real \<Rightarrow> real" where
  "dsqrt a = fl (sqrt a)"

section \<open>Constants of 2man.cpp\<close>

definition SCREEN_WIDTH :: int where
  "SCREEN_WIDTH = 800"

definition SCREEN_HEIGHT :: int where
  "SCREEN_HEIGHT = 600"

definition SAMPLE_RATE :: int where
  "SAMPLE_RATE = 44100"

text \<open>
  \<^verbatim>\<open>NUM_THREADS\<close> is \<^verbatim>\<open>std::thread::hardware_concurrency()\<close> when that is positive
  and 4 otherwise; the value reported by the platform is a parameter.
\<close>

definition NUM_THREADS :: "nat \<Rightarrow> int" where
  "NUM_THREADS hardware_concurrency =
     (if hardware_concurrency > 0 then int hardware_concurrency else 4)"

section \<open>Escape-time evaluator (2man.cpp)\<close>

text \<open>
  The \<^verbatim>\<open>while\<close> loop of \<^verbatim>\<open>calculateMandelbrot\<close> in 2man.cpp, with the loop variables
  \<^verbatim>\<open>x\<close>, \<^verbatim>\<open>y\<close>, \<^verbatim>\<open>x2\<close>, \<^verbatim>\<open>y2\<close>, \<^verbatim>\<open>iteration\<close> as arguments.  The body assigns \<^verbatim>\<open>y\<close>
  first (from the old \<^verbatim>\<open>x\<close>), then \<^verbatim>\<open>x\<close> from the old squares.
\<close>

function mandel_loop ::
  "real \<Rightarrow> real \<Rightarrow> int \<Rightarrow> real \<Rightarrow> real \<Rightarrow> real \<Rightarrow> real \<Rightarrow> int \<Rightarrow> int" where
  "mandel_loop creal cimag maxIter x y x2 y2 iteration =
     (if x2 + y2 < 4 \<and> iteration < maxIter
      then (let y' = 2 * x * y + cimag;
                x' = x2 - y2 + creal
            in mandel_loop creal cimag maxIter x' y' (x' * x') (y' * y') (iteration + 1))
      else iteration)"
  by pat_completeness auto
termination
  by (relation "measure (\<lambda>(creal, cimag, maxIter, x, y, x2, y2, iteration).
                    nat (maxIter - iteration))") auto

declare mandel_loop.simps [simp del]

definition calculateMandelbrot :: "real \<Rightarrow> real \<Rightarrow> int \<Rightarrow> int" where
  "calculateMandelbrot creal cimag maxIter = mandel_loop creal cimag maxIter 0 0 0 0 0"

section \<open>Escape-time evaluator (man.cpp)\<close>

definition MAX_ITERATIONS_man :: int where
  "MAX_ITERATIONS_man = 1000"

text \<open>
  The loop of \<^verbatim>\<open>calculateMandelbrot\<close> in man.cpp on \<^verbatim>\<open>std::complex<double>\<close>:
  \<^verbatim>\<open>while (std::abs(z) < 2.0 && iteration < MAX_ITERATIONS) { z = z * z + c; iteration++; }\<close>
\<close>

function naive_loop :: "complex \<Rightarrow> complex \<Rightarrow> int \<Rightarrow> int" where
  "naive_loop c z iteration =
     (if cmod z < 2 \<and> iteration < MAX_ITERATIONS_man
      then naive_loop c (z * z + c) (iteration + 1)
      else iteration)"
  by pat_completeness auto
termination
  by (relation "measure (\<lambda>(c, z, iteration). nat (MAX_ITERATIONS_man - iteration))") auto

declare naive_loop.simps [simp del]

definition calculateMandelbrot_man :: "real \<Rightarrow> real \<Rightarrow> int" where
  "calculateMandelbrot_man creal cimag = naive_loop (Complex creal cimag) (Complex 0 0) 0"

section \<open>Coordinate mapper\<close>

text \<open>
  \<^verbatim>\<open>mapValue\<close> divides by \<^verbatim>\<open>inMax - inMin\<close>.  Every call in this development has
  \<^verbatim>\<open>inMin = 0\<close> and \<^verbatim>\<open>inMax\<close> one of 800, 600, 64 or a positive iteration budget, so the
  divisor is not zero.
\<close>

definition mapValue :: "real \<Rightarrow> real \<Rightarrow> real \<Rightarrow> real \<Rightarrow> real \<Rightarrow> real" where
  "mapValue v inMin inMax outMin outMax =
     outMin + (outMax - outMin) * ((v - inMin) / (inMax - inMin))"

text \<open>
  \<^verbatim>\<open>mapValue\<close> as the machine computes it: the same expression with every operation
  rounded.
\<close>

definition mapValue_double :: "real \<Rightarrow> real \<Rightarrow> real \<Rightarrow> real \<Rightarrow> real \<Rightarrow> real" where
  "mapValue_double v inMin inMax outMin outMax =
     dadd outMin (dmul (dsub outMax outMin) (ddiv (dsub v inMin) (dsub inMax inMin)))"

section \<open>Tile renderer\<close>

text \<open>
  The colour of a pixel from its iteration count (the body of the inner loop of
  \<^verbatim>\<open>renderMandelbrotSection\<close> after the call of the evaluator), in rounded arithmetic:
  \<^verbatim>\<open>1.0 - saturation\<close> is a little less than 0.2, so the channel \<^verbatim>\<open>p * 255\<close> is a little
  less than 51 and is stored as 50.  The \<^verbatim>\<open>switch\<close> on \<^verbatim>\<open>i % 6\<close> has the six cases 0 to 5
  and no default; \<^verbatim>\<open>i\<close> is the truncation of a hue in \<open>[0, 6)\<close>, so one of the six cases
  is always taken (lemma \<open>sector_range\<close>), and the last branch below, which stands for the
  channels left uninitialised, is never reached.
\<close>

definition pixelColour :: "int \<Rightarrow> int \<Rightarrow> 8 word \<times> 8 word \<times> 8 word" where
  "pixelColour iterations maxIterations =
     (if iterations = maxIterations then (0, 0, 0)
      else
        (let hue = mapValue_double (real_of_int (iterations smod 64)) 0 64 0 1;
             saturation = fl 0.8;
             val = (if iterations < maxIterations then 1 else 0);
             h = dmul hue 6;
             i = trunc h;
             f = dsub h (real_of_int i);
             p = dmul val (dsub 1 saturation);
             q = dmul val (dsub 1 (dmul saturation f));
             t = dmul val (dsub 1 (dmul saturation (dsub 1 f)));
             sector = i smod 6
         in if sector = 0 then
              (double_to_Uint8 (dmul val 255), double_to_Uint8 (dmul t 255),
               double_to_Uint8 (dmul p 255))
            else if sector = 1 then
              (double_to_Uint8 (dmul q 255), double_to_Uint8 (dmul val 255),
               double_to_Uint8 (dmul p 255))
            else if sector = 2 then
              (double_to_Uint8 (dmul p 255), double_to_Uint8 (dmul val 255),
               double_to_Uint8 (dmul t 255))
            else if sector = 3 then
              (double_to_Uint8 (dmul p 255), double_to_Uint8 (dmul q 255),
               double_to_Uint8 (dmul val 255))
            else if sector = 4 then
              (double_to_Uint8 (dmul t 255), double_to_Uint8 (dmul p 255),
               double_to_Uint8 (dmul val 255))
            else if sector = 5 then
              (double_to_Uint8 (dmul val 255), double_to_Uint8 (dmul p 255),
               double_to_Uint8 (dmul q 255))
            else (0, 0, 0)))"

text \<open>\<^verbatim>\<open>(r) | (g << 8) | (b << 16) | (255 << 24)\<close>, stored into a \<^verbatim>\<open>Uint32\<close>.\<close>

definition packRGBA :: "8 word \<times> 8 word \<times> 8 word \<Rightarrow> 32 word" where
  "packRGBA c =
     (case c of (r, g, b) \<Rightarrow>
        ucast r OR push_bit 8 (ucast g) OR push_bit 16 (ucast b) OR push_bit 24 255)"

definition pixelValue ::
  "int \<Rightarrow> int \<Rightarrow> int \<Rightarrow> int \<Rightarrow> real \<Rightarrow> real \<Rightarrow> real \<Rightarrow> real \<Rightarrow> int \<Rightarrow> 32 word" where
  "pixelValue x y width height xMin xMax yMin yMax maxIterations =
     (let creal = mapValue (real_of_int x) 0 (real_of_int width) xMin xMax;
          cimag = mapValue (real_of_int y) 0 (real_of_int height) yMin yMax;
          iterations = calculateMandelbrot creal cimag maxIterations
      in packRGBA (pixelColour iterations maxIterations))"

text \<open>
  The raster is the array \<^verbatim>\<open>pixels\<close>, a list of \<^verbatim>\<open>Uint32\<close> indexed by
  \<^verbatim>\<open>y * width + x\<close>.  The inner loop of \<^verbatim>\<open>renderMandelbrotSection\<close> (over \<^verbatim>\<open>x\<close>) and
  its outer loop (over \<^verbatim>\<open>y\<close>, started at \<^verbatim>\<open>startY\<close>) are the two functions below.
\<close>

function renderRow ::
  "32 word list \<Rightarrow> int \<Rightarrow> int \<Rightarrow> int \<Rightarrow> int \<Rightarrow> real \<Rightarrow> real \<Rightarrow> real \<Rightarrow> real \<Rightarrow> int
     \<Rightarrow> 32 word list" where
  "renderRow pixels y x width height xMin xMax yMin yMax maxIterations =
     (if x < width
      then renderRow
             (pixels[nat (y * width + x) :=
                pixelValue x y width height xMin xMax yMin yMax maxIterations])
             y (x + 1) width height xMin xMax yMin yMax maxIterations
      else pixels)"
  by pat_completeness auto
termination
  by (relation "measure (\<lambda>(pixels, y, x, width, height, xMin, xMax, yMin, yMax, maxIterations).
                    nat (width - x))") auto

declare renderRow.simps [simp del]

function renderMandelbrotSection ::
  "32 word list \<Rightarrow> int \<Rightarrow> int \<Rightarrow> int \<Rightarrow> int \<Rightarrow> real \<Rightarrow> real \<Rightarrow> real \<Rightarrow> real \<Rightarrow> int
     \<Rightarrow> 32 word list" where
  "renderMandelbrotSection pixels startY endY width height xMin xMax yMin yMax maxIterations =
     (if startY < endY
      then renderMandelbrotSection
             (renderRow pixels startY 0 width height xMin xMax yMin yMax maxIterations)
             (startY + 1) endY width height xMin xMax yMin yMax maxIterations
      else pixels)"
  by pat_completeness auto
termination
  by (relation "measure (\<lambda>(pixels, startY, endY, width, height, xMin, xMax, yMin, yMax,
                    maxIterations). nat (endY - startY))") auto

declare renderMandelbrotSection.simps [simp del]

section \<open>Parallel render orchestrator\<close>

text \<open>
  The loop of \<^verbatim>\<open>renderMandelbrot\<close> that creates one worker per strip, from worker \<^verbatim>\<open>i\<close>
  on.  Every worker runs \<^verbatim>\<open>renderMandelbrotSection\<close> on the shared array and all are
  joined before the array is read; the model runs them one after the other in the order
  of their creation.
\<close>

function renderStrips ::
  "int \<Rightarrow> int \<Rightarrow> int \<Rightarrow> 32 word list \<Rightarrow> real \<Rightarrow> real \<Rightarrow> real \<Rightarrow> real \<Rightarrow> int \<Rightarrow> 32 word list" where
  "renderStrips i numThreads sectionHeight pixels xMin xMax yMin yMax localMaxIterations =
     (if i < numThreads
      then (let startY = i * sectionHeight;
                endY = (if i = numThreads - 1 then SCREEN_HEIGHT else startY + sectionHeight)
            in renderStrips (i + 1) numThreads sectionHeight
                 (renderMandelbrotSection pixels startY endY SCREEN_WIDTH SCREEN_HEIGHT
                    xMin xMax yMin yMax localMaxIterations)
                 xMin xMax yMin yMax localMaxIterations)
      else pixels)"
  by pat_completeness auto
termination
  by (relation "measure (\<lambda>(i, numThreads, sectionHeight, pixels, xMin, xMax, yMin, yMax,
                    localMaxIterations). nat (numThreads - i))") auto

declare renderStrips.simps [simp del]

text \<open>The raster computed by one render pass: the strips of all workers.\<close>

definition renderRaster ::
  "int \<Rightarrow> 32 word list \<Rightarrow> real \<Rightarrow> real \<Rightarrow> real \<Rightarrow> real \<Rightarrow> int \<Rightarrow> 32 word list" where
  "renderRaster numThreads pixels xMin xMax yMin yMax localMaxIterations =
     (let sectionHeight = SCREEN_HEIGHT sdiv numThreads
      in renderStrips 0 numThreads sectionHeight pixels xMin xMax yMin yMax localMaxIterations)"

text \<open>
  The global variables of 2man.cpp that the orchestrator reads and writes, and the
  texture that \<^verbatim>\<open>SDL_UpdateTexture\<close> fills from the rendered array.
\<close>

record render_state =
  xMin :: real
  xMax :: real
  yMin :: real
  yMax :: real
  prev_xMin :: real
  prev_xMax :: real
  prev_yMin :: real
  prev_yMax :: real
  needsUpdate :: bool
  isHighQuality :: bool
  isRenderingHighQuality :: bool
  MAX_ITERATIONS :: int
  texture :: "32 word list"

text \<open>
  \<^verbatim>\<open>renderMandelbrot\<close>.  The array \<^verbatim>\<open>new Uint32[SCREEN_WIDTH * SCREEN_HEIGHT]\<close> is not
  initialised by the source; its contents at allocation are the parameter \<open>pixels\<close>.
\<close>

definition renderMandelbrot ::
  "int \<Rightarrow> 32 word list \<Rightarrow> bool \<Rightarrow> render_state \<Rightarrow> render_state" where
  "renderMandelbrot numThreads pixels highQuality s =
     (if highQuality \<and> \<not> needsUpdate s \<and>
         prev_xMin s = xMin s \<and> prev_xMax s = xMax s \<and>
         prev_yMin s = yMin s \<and> prev_yMax s = yMax s
      then s
      else
        (let s1 = s\<lparr>prev_xMin := xMin s, prev_xMax := xMax s,
                    prev_yMin := yMin s, prev_yMax := yMax s\<rparr>;
             localMaxIterations =
               (if highQuality then MAX_ITERATIONS s1 else MAX_ITERATIONS s1 sdiv 4);
             rendered = renderRaster numThreads pixels (xMin s1) (xMax s1) (yMin s1) (yMax s1)
                          localMaxIterations;
             s2 = s1\<lparr>texture := rendered\<rparr>
         in if highQuality
            then s2\<lparr>needsUpdate := False, isHighQuality := True,
                     isRenderingHighQuality := False\<rparr>
            else s2))"

section \<open>Adaptive iteration controller\<close>

text \<open>
  \<^verbatim>\<open>updateIterations\<close>, in rounded arithmetic.  The value \<^verbatim>\<open>100 * sqrt(zoomLevel)\<close> is
  converted to \<^verbatim>\<open>int\<close> before it is clamped.  The conversion is undefined when the value
  does not fit 32 bits, and also for a zero \<^verbatim>\<open>currentRange\<close> (an infinite
  \<^verbatim>\<open>zoomLevel\<close>) and a negative one (a NaN); the compiled program then continues with
  whatever the conversion instruction of the platform yields (\<open>- 2\<^sup>3\<^sup>1\<close> on x86-64), the
  parameter \<open>out_of_range\<close>.
\<close>

definition iterationBudget :: "int \<Rightarrow> real \<Rightarrow> int" where
  "iterationBudget out_of_range currentRange =
     (let converted =
            (if currentRange \<le> 0 then out_of_range
             else
               (let initialRange = fl 3.5;
                    zoomLevel = ddiv initialRange currentRange
                in case double_to_int (dmul 100 (dsqrt zoomLevel)) of
                     None \<Rightarrow> out_of_range
                   | Some m \<Rightarrow> m));
          m1 = (if converted < 100 then 100 else converted);
          m2 = (if m1 > 2000 then 2000 else m1)
      in m2)"

definition updateIterations :: "int \<Rightarrow> render_state \<Rightarrow> render_state" where
  "updateIterations out_of_range s =
     s\<lparr>MAX_ITERATIONS := iterationBudget out_of_range (dsub (xMax s) (xMin s))\<rparr>"

text \<open>The formula of the specification, on real numbers.\<close>

definition clamp :: "real \<Rightarrow> real \<Rightarrow> real \<Rightarrow> real" where
  "clamp v lo hi = (if v < lo then lo else if v > hi then hi else v)"

definition budget_spec :: "real \<Rightarrow> real" where
  "budget_spec w = clamp (100 * sqrt (3.5 / w)) 100 2000"

section \<open>Sonification synthesizer\<close>

text \<open>
  The primary frequency chosen at the start of \<^verbatim>\<open>createMandelbrotSound\<close>; \<open>budget\<close> is
  the value of the global \<^verbatim>\<open>MAX_ITERATIONS\<close> at the call.
\<close>

definition primaryFreq :: "int \<Rightarrow> int \<Rightarrow> real" where
  "primaryFreq budget iterations =
     (if iterations \<ge> budget then 110
      else mapValue (real_of_int iterations) 0 (real_of_int budget) 220 880)"

definition envelope :: "real \<Rightarrow> real \<Rightarrow> real" where
  "envelope duration time =
     (let attackTime = 0.05;
          decayTime = 0.1;
          sustainLevel = 0.7;
          releaseTime = 0.3
      in if time < attackTime then time / attackTime
         else if time < attackTime + decayTime then
           1 - (1 - sustainLevel) * ((time - attackTime) / decayTime)
         else if time < duration - releaseTime then sustainLevel
         else sustainLevel * (1 - (time - (duration - releaseTime)) / releaseTime))"

definition mixedSample :: "real \<Rightarrow> real \<Rightarrow> real \<Rightarrow> real \<Rightarrow> real \<Rightarrow> real" where
  "mixedSample freq secondaryFreq1 secondaryFreq2 harmonicFreq time =
     0.5 * sin (2 * pi * freq * time)
     + 0.25 * sin (2 * pi * secondaryFreq1 * time)
     + 0.15 * sin (2 * pi * secondaryFreq2 * time)
     + 0.1 * sin (2 * pi * harmonicFreq * time)"

text \<open>
  The sample loop, from index \<^verbatim>\<open>i\<close> on.  The result is \<open>None\<close> when a sample does not
  fit the conversion to \<^verbatim>\<open>Sint16\<close>.
\<close>

function soundLoop ::
  "int \<Rightarrow> int \<Rightarrow> real \<Rightarrow> real \<Rightarrow> real \<Rightarrow> real \<Rightarrow> real \<Rightarrow> 16 word list
     \<Rightarrow> 16 word list option" where
  "soundLoop i sampleCount duration freq secondaryFreq1 secondaryFreq2 harmonicFreq buffer =
     (if i < sampleCount
      then (let time = real_of_int i / real_of_int SAMPLE_RATE;
                env = envelope duration time;
                sample = mixedSample freq secondaryFreq1 secondaryFreq2 harmonicFreq time * env
            in case double_to_Sint16 (sample * 32767) of
                 None \<Rightarrow> None
               | Some v \<Rightarrow>
                   soundLoop (i + 1) sampleCount duration freq secondaryFreq1 secondaryFreq2
                     harmonicFreq (buffer[nat i := v]))
      else Some buffer)"
  by pat_completeness auto
termination
  by (relation "measure (\<lambda>(i, sampleCount, duration, freq, secondaryFreq1, secondaryFreq2,
                    harmonicFreq, buffer). nat (sampleCount - i))") auto

declare soundLoop.simps [simp del]

definition createMandelbrotSound :: "int \<Rightarrow> int \<Rightarrow> real \<Rightarrow> real \<Rightarrow> 16 word list option" where
  "createMandelbrotSound budget iterations creal cimag =
     (let duration = 1.0;
          freq = primaryFreq budget iterations;
          secondaryFreq1 = freq * (1.0 + creal * 0.1);
          secondaryFreq2 = freq * (1.0 + cimag * 0.1);
          harmonicFreq = freq * 1.5
      in case double_to_int (real_of_int SAMPLE_RATE * duration) of
           None \<Rightarrow> None
         | Some sampleCount \<Rightarrow>
             soundLoop 0 sampleCount duration freq secondaryFreq1 secondaryFreq2 harmonicFreq
               (replicate (nat sampleCount) 0))"

section \<open>Wheel events\<close>

text \<open>
  The new viewport computed by the \<^verbatim>\<open>SDL_MOUSEWHEEL\<close> branch of \<^verbatim>\<open>main\<close>, in rounded
  arithmetic: the cursor is at pixel \<open>(mouseX, mouseY)\<close> and \<open>wheel_y\<close> is
  \<^verbatim>\<open>e.wheel.y\<close>.  The literal \<^verbatim>\<open>0.8\<close> is the binary64 value nearest to 0.8.
\<close>

definition zoomViewport :: "int \<Rightarrow> int \<Rightarrow> int \<Rightarrow> render_state \<Rightarrow> render_state" where
  "zoomViewport mouseX mouseY wheel_y s =
     (let centerReal =
            mapValue_double (real_of_int mouseX) 0 (real_of_int SCREEN_WIDTH) (xMin s) (xMax s);
          centerImag =
            mapValue_double (real_of_int mouseY) 0 (real_of_int SCREEN_HEIGHT) (yMin s) (yMax s);
          zoomFactor = (if wheel_y > 0 then fl 0.8 else fl 1.25);
          newWidth = dmul (dsub (xMax s) (xMin s)) zoomFactor;
          newHeight = dmul (dsub (yMax s) (yMin s)) zoomFactor
      in s\<lparr>xMin := dsub centerReal (ddiv newWidth 2),
            xMax := dadd centerReal (ddiv newWidth 2),
            yMin := dsub centerImag (ddiv newHeight 2),
            yMax := dadd centerImag (ddiv newHeight 2)\<rparr>)"

text \<open>The whole branch: zoom, new budget, flags, and the immediate low-quality render.\<close>

definition onMouseWheel ::
  "int \<Rightarrow> 32 word list \<Rightarrow> int \<Rightarrow> int \<Rightarrow> int \<Rightarrow> int \<Rightarrow> render_state \<Rightarrow> render_state" where
  "onMouseWheel numThreads pixels out_of_range mouseX mouseY wheel_y s =
     renderMandelbrot numThreads pixels False
       ((updateIterations out_of_range (zoomViewport mouseX mouseY wheel_y s))
          \<lparr>needsUpdate := True, isHighQuality := False\<rparr>)"

section \<open>Reference formulas and sample states\<close>


text \<open>
  The state after a finished precise render of the initial viewport: the stored bounds
  are the current ones and no redraw is pending.
\<close>

definition idle_state :: render_state where
  "idle_state =
     \<lparr>xMin = - 2.5, xMax = 1, yMin = - 1.5, yMax = 1.5,
      prev_xMin = - 2.5, prev_xMax = 1, prev_yMin = - 1.5, prev_yMax = 1.5,
      needsUpdate = False, isHighQuality = True, isRenderingHighQuality = False,
      MAX_ITERATIONS = 100, texture = replicate 480000 0\<rparr>"

text \<open>
  A viewport one unit in the last place wide: \<open>xMax\<close> is the binary64 number that
  follows \<open>xMin = 1.5\<close>, that is \<open>1.5 + 2\<^sup>-\<^sup>5\<^sup>2\<close>.
\<close>

definition one_ulp_state :: render_state where
  "one_ulp_state = idle_state\<lparr>xMin := 3 / 2, xMax := 6755399441055745 / 4503599627370496\<rparr>"

section \<open>Properties of the rounding\<close>

lemma rne_of_int [simp]: "rne (of_int n) = n"
  by (simp add: rne_def)

lemma rne_cases: "rne r = \<lfloor>r\<rfloor> \<or> rne r = \<lfloor>r\<rfloor> + 1"
  by (simp add: rne_def Let_def)

lemma rne_lower: "\<lfloor>r\<rfloor> \<le> rne r"
  using rne_cases [of r] by linarith

lemma rne_upper: "rne r \<le> \<lfloor>r\<rfloor> + 1"
  using rne_cases [of r] by linarith

lemma rne_mono:
  assumes "r \<le> s"
  shows "rne r \<le> rne s"
proof (cases "\<lfloor>r\<rfloor> = \<lfloor>s\<rfloor>")
  case True
  then have "r - of_int \<lfloor>r\<rfloor> \<le> s - of_int \<lfloor>s\<rfloor>"
    using assms by simp
  then show ?thesis
    using True by (simp add: rne_def Let_def)
next
  case False
  moreover have "\<lfloor>r\<rfloor> \<le> \<lfloor>s\<rfloor>" using assms by (rule floor_mono)
  ultimately have "\<lfloor>r\<rfloor> + 1 \<le> \<lfloor>s\<rfloor>" by linarith
  with rne_upper [of r] rne_lower [of s] show ?thesis by linarith
qed

lemma rne_zero [simp]: "rne 0 = 0"
  by (simp add: rne_def)

lemma rne_nonneg: "0 \<le> r \<Longrightarrow> 0 \<le> rne r"
  using rne_mono [of 0 r] by simp

lemma ulp_pos [simp]: "0 < ulp x"
  by (simp add: ulp_def zero_less_power_int)

lemma binade_minus [simp]: "binade (- x) = binade x"
  by (simp add: binade_def)

lemma ulp_minus [simp]: "ulp (- x) = ulp x"
  by (simp add: ulp_def)

lemma fl_zero [simp]: "fl 0 = 0"
  by (simp add: fl_def)

lemma fl_minus: "fl (- x) = - fl x"
  by (simp add: fl_def sgn_minus)

lemma fl_pos: "0 < x \<Longrightarrow> fl x = of_int (rne (x / ulp x)) * ulp x"
  by (simp add: fl_def)

lemma fl_nonneg:
  assumes "0 \<le> x"
  shows "0 \<le> fl x"
proof (cases "x = 0")
  case True
  then show ?thesis by simp
next
  case False
  with assms have pos: "0 < x" by simp
  have "0 \<le> x / ulp x" using assms by (intro divide_nonneg_pos) simp_all
  then have "0 \<le> real_of_int (rne (x / ulp x))" by (simp add: rne_nonneg)
  then have "0 \<le> real_of_int (rne (x / ulp x)) * ulp x"
    by (intro mult_nonneg_nonneg) (simp_all add: less_imp_le)
  then show ?thesis by (simp add: fl_pos [OF pos])
qed

lemma powr_int_powi: "(2::real) powr real_of_int k = 2 powi k"
  by (simp add: powr_real_of_int')

lemma floor_log2_iff:
  assumes "0 < x"
  shows "\<lfloor>log 2 x\<rfloor> = e \<longleftrightarrow> 2 powi e \<le> x \<and> x < 2 powi (e + 1)"
  using floor_log_eq_powr_iff [of x 2 e] assms
  by (simp only: powr_int_powi)

lemma log2_bounds:
  assumes "0 < x"
  shows "2 powi \<lfloor>log 2 x\<rfloor> \<le> x" and "x < 2 powi (\<lfloor>log 2 x\<rfloor> + 1)"
  using floor_log2_iff [OF assms, of "\<lfloor>log 2 x\<rfloor>"] by simp_all

lemma floor_log2_eq:
  assumes "2 powi e \<le> x" and "x < 2 powi (e + 1)"
  shows "\<lfloor>log 2 x\<rfloor> = e"
proof -
  have "0 < (2::real) powi e" by (simp add: zero_less_power_int)
  with assms(1) have "0 < x" by linarith
  then show ?thesis
    using floor_log2_iff [of x e] assms by simp
qed


text \<open>Within one binade rounding is monotone; across binades the powers of two separate.\<close>

lemma binade_ge: "- 1022 \<le> binade x" "\<lfloor>log 2 \<bar>x\<bar>\<rfloor> \<le> binade x"
  by (simp_all add: binade_def)

lemma below_next_binade:
  assumes "0 < x"
  shows "x < 2 powi (binade x + 1)"
proof -
  have "x < 2 powi (\<lfloor>log 2 x\<rfloor> + 1)" using assms by (rule log2_bounds)
  also have "\<dots> \<le> 2 powi (binade x + 1)"
    using binade_ge(2) [of x] assms by (intro power_int_increasing) simp_all
  finally show ?thesis .
qed

lemma ulp_scale:
  "ulp x * 2 powi 53 = 2 powi (binade x + 1)"
  "ulp x * 2 powi 52 = 2 powi (binade x)"
proof -
  have "(2::real) powi ((binade x - 52) + 53) = 2 powi (binade x - 52) * 2 powi 53"
    by (rule power_int_add) simp
  moreover have "(binade x - 52) + 53 = binade x + 1" by simp
  ultimately show "ulp x * 2 powi 53 = 2 powi (binade x + 1)"
    by (simp only: ulp_def)
  have "(2::real) powi ((binade x - 52) + 52) = 2 powi (binade x - 52) * 2 powi 52"
    by (rule power_int_add) simp
  moreover have "(binade x - 52) + 52 = binade x" by simp
  ultimately show "ulp x * 2 powi 52 = 2 powi (binade x)"
    by (simp only: ulp_def)
qed

lemma fl_le_next_binade:
  assumes "0 < x"
  shows "fl x \<le> 2 powi (binade x + 1)"
proof -
  have "x \<le> ulp x * 2 powi 53"
    using below_next_binade [OF assms] by (simp only: ulp_scale)
  then have "x / ulp x \<le> 2 powi 53"
    by (simp add: pos_divide_le_eq mult.commute)
  moreover have "(2::real) powi 53 = real_of_int (2 ^ 53)" by simp
  ultimately have "x / ulp x \<le> real_of_int (2 ^ 53)" by (simp only:)
  then have "rne (x / ulp x) \<le> rne (real_of_int (2 ^ 53))"
    by (rule rne_mono)
  then have "rne (x / ulp x) \<le> 2 ^ 53"
    by (simp only: rne_of_int)
  then have "real_of_int (rne (x / ulp x)) \<le> real_of_int (2 ^ 53)"
    by (simp only: of_int_le_iff)
  then have "real_of_int (rne (x / ulp x)) * ulp x \<le> real_of_int (2 ^ 53) * ulp x"
    by (intro mult_right_mono) (simp_all add: less_imp_le)
  also have "real_of_int (2 ^ 53) * ulp x = 2 powi (binade x + 1)"
    using ulp_scale(1) [of x] by (simp add: mult.commute)
  finally show ?thesis by (simp only: fl_pos [OF assms])
qed

lemma fl_ge_binade:
  assumes "0 < x" and "- 1022 < binade x"
  shows "2 powi (binade x) \<le> fl x"
proof -
  have "binade x = \<lfloor>log 2 x\<rfloor>"
    using assms by (simp add: binade_def max_def split: if_splits)
  then have "2 powi (binade x) \<le> x"
    using log2_bounds(1) [OF assms(1)] by simp
  then have "ulp x * 2 powi 52 \<le> x"
    by (simp only: ulp_scale)
  then have "2 powi 52 \<le> x / ulp x"
    by (simp add: pos_le_divide_eq mult.commute)
  moreover have "(2::real) powi 52 = real_of_int (2 ^ 52)" by simp
  ultimately have "real_of_int (2 ^ 52) \<le> x / ulp x" by (simp only:)
  then have "rne (real_of_int (2 ^ 52)) \<le> rne (x / ulp x)"
    by (rule rne_mono)
  then have "2 ^ 52 \<le> rne (x / ulp x)"
    by (simp only: rne_of_int)
  then have "real_of_int (2 ^ 52) \<le> real_of_int (rne (x / ulp x))"
    by (simp only: of_int_le_iff)
  then have "real_of_int (2 ^ 52) * ulp x \<le> real_of_int (rne (x / ulp x)) * ulp x"
    by (intro mult_right_mono) (simp_all add: less_imp_le)
  moreover have "real_of_int (2 ^ 52) * ulp x = 2 powi (binade x)"
    using ulp_scale(2) [of x] by (simp add: mult.commute)
  ultimately show ?thesis by (simp only: fl_pos [OF assms(1)])
qed

lemma binade_mono:
  assumes "0 < x" and "x \<le> y"
  shows "binade x \<le> binade y"
proof -
  have "log 2 x \<le> log 2 y" using assms by simp
  then have "\<lfloor>log 2 x\<rfloor> \<le> \<lfloor>log 2 y\<rfloor>" by (rule floor_mono)
  then show ?thesis using assms by (simp add: binade_def)
qed

lemma fl_mono_pos:
  assumes "0 < x" and "x \<le> y"
  shows "fl x \<le> fl y"
proof (cases "binade x = binade y")
  case True
  then have u: "ulp x = ulp y" by (simp add: ulp_def)
  have "x / ulp y \<le> y / ulp y"
    using assms(2) by (simp add: divide_right_mono less_imp_le)
  then have "rne (x / ulp y) \<le> rne (y / ulp y)" by (rule rne_mono)
  then have "real_of_int (rne (x / ulp y)) * ulp y \<le> real_of_int (rne (y / ulp y)) * ulp y"
    by (intro mult_right_mono) (simp_all add: less_imp_le)
  then show ?thesis
    using assms by (simp add: fl_pos u)
next
  case False
  have ypos: "0 < y" using assms by linarith
  from False binade_mono [OF assms] have lt: "binade x + 1 \<le> binade y" by linarith
  then have "- 1022 < binade y" using binade_ge(1) [of x] by linarith
  then have "2 powi (binade y) \<le> fl y" using ypos by (intro fl_ge_binade)
  moreover have "fl x \<le> 2 powi (binade x + 1)" using assms(1) by (rule fl_le_next_binade)
  moreover have "(2::real) powi (binade x + 1) \<le> 2 powi (binade y)"
    using lt by (intro power_int_increasing) simp_all
  ultimately show ?thesis by linarith
qed

lemma fl_mono:
  assumes "x \<le> y"
  shows "fl x \<le> fl y"
proof -
  consider "0 < x" | "x \<le> 0" "0 \<le> y" | "y < 0" by linarith
  then show ?thesis
  proof cases
    case 1
    then show ?thesis using assms by (rule fl_mono_pos)
  next
    case 2
    then have "fl x \<le> 0" using fl_nonneg [of "- x"] by (simp add: fl_minus)
    moreover have "0 \<le> fl y" using 2 by (simp add: fl_nonneg)
    ultimately show ?thesis by linarith
  next
    case 3
    then have "fl (- y) \<le> fl (- x)" using assms by (intro fl_mono_pos) simp_all
    then show ?thesis by (simp add: fl_minus)
  qed
qed


text \<open>Values with a significand below \<open>2\<^sup>5\<^sup>3\<close> and an exponent of at least -1074 are not changed.\<close>

lemma fl_repr_pos:
  assumes "0 < m" and "m < 2 ^ 53" and "- 1074 \<le> k"
  shows "fl (real_of_int m * 2 powi k) = real_of_int m * 2 powi k"
proof -
  define x where "x = real_of_int m * 2 powi k"
  have pos: "0 < x" using assms(1) by (simp add: x_def zero_less_power_int)
  have "real_of_int m < 2 powi 53" using assms(2) by simp
  then have "x < 2 powi 53 * 2 powi k"
    unfolding x_def by (intro mult_strict_right_mono) (simp_all add: zero_less_power_int)
  also have "\<dots> = 2 powi (k + 53)"
    using power_int_add [of "2::real" 53 k] by (simp add: add.commute)
  finally have up: "x < 2 powi (k + 53)" .
  have "\<lfloor>log 2 x\<rfloor> < k + 53"
  proof (rule ccontr)
    assume "\<not> \<lfloor>log 2 x\<rfloor> < k + 53"
    then have "(2::real) powi (k + 53) \<le> 2 powi \<lfloor>log 2 x\<rfloor>"
      by (intro power_int_increasing) simp_all
    with log2_bounds(1) [OF pos] up show False by linarith
  qed
  then have e: "binade x \<le> k + 52"
    using assms(3) pos by (simp add: binade_def)
  define j where "j = nat (k + 52 - binade x)"
  define u where "u = ulp x"
  have upos: "0 < u" by (simp add: u_def)
  have k: "k = (binade x - 52) + int j" using e by (simp add: j_def)
  have "(2::real) powi k = 2 powi (binade x - 52) * 2 powi (int j)"
    by (subst k, rule power_int_add) simp
  then have split: "(2::real) powi k = u * 2 ^ j"
    by (simp add: ulp_def u_def)
  have xeq: "x = real_of_int m * (u * 2 ^ j)"
    by (simp only: x_def split)
  have "x / u = real_of_int (m * 2 ^ j)"
    using upos by (simp add: xeq)
  then have "rne (x / u) = m * 2 ^ j"
    by (simp only: rne_of_int)
  then have "fl x = real_of_int (m * 2 ^ j) * u"
    by (simp only: fl_pos [OF pos] u_def)
  also have "\<dots> = x" by (simp add: xeq)
  finally show ?thesis by (simp only: x_def)
qed

lemma fl_repr:
  assumes "\<bar>m\<bar> < 2 ^ 53" and "- 1074 \<le> k"
  shows "fl (real_of_int m * 2 powi k) = real_of_int m * 2 powi k"
proof -
  consider "0 < m" | "m = 0" | "m < 0" by linarith
  then show ?thesis
  proof cases
    case 1
    then show ?thesis using assms by (intro fl_repr_pos) simp_all
  next
    case 2
    then show ?thesis by simp
  next
    case 3
    then have "fl (real_of_int (- m) * 2 powi k) = real_of_int (- m) * 2 powi k"
      using assms by (intro fl_repr_pos) simp_all
    then have "fl (- (real_of_int m * 2 powi k)) = - (real_of_int m * 2 powi k)"
      by simp
    then show ?thesis by (simp add: fl_minus)
  qed
qed

lemma fl_of_int:
  assumes "\<bar>m\<bar> < 2 ^ 53"
  shows "fl (real_of_int m) = real_of_int m"
  using fl_repr [OF assms, of 0] by simp

text \<open>Evaluation of a rounding once the binade of the argument is known.\<close>

lemma fl_eval:
  assumes "2 powi e \<le> x" and "x < 2 powi (e + 1)" and "- 1022 \<le> e"
  shows "fl x = real_of_int (rne (x / 2 powi (e - 52))) * 2 powi (e - 52)"
proof -
  have "0 < (2::real) powi e" by (simp add: zero_less_power_int)
  with assms(1) have pos: "0 < x" by linarith
  have "\<lfloor>log 2 x\<rfloor> = e" using assms(1,2) by (rule floor_log2_eq)
  then have "binade x = e" using assms(3) pos by (simp add: binade_def)
  then show ?thesis by (simp add: fl_pos [OF pos] ulp_def)
qed

lemma rne_fraction:
  assumes "0 < b"
  shows "rne (real_of_int a / real_of_int b) =
         (if 2 * (a mod b) < b then a div b
          else if b < 2 * (a mod b) then a div b + 1
          else if even (a div b) then a div b else a div b + 1)"
proof -
  have f: "\<lfloor>real_of_int a / real_of_int b\<rfloor> = a div b"
    by (simp add: floor_divide_of_int_eq)
  have "real_of_int a = real_of_int (a div b) * real_of_int b + real_of_int (a mod b)"
    by (metis of_int_add of_int_mult div_mult_mod_eq)
  then have d: "real_of_int a / real_of_int b - real_of_int (a div b) =
             real_of_int (a mod b) / real_of_int b"
    using assms by (simp add: field_simps)
  have lt: "real_of_int (a mod b) / real_of_int b < 1 / 2 \<longleftrightarrow> 2 * (a mod b) < b"
    using assms by (simp add: field_simps) (metis of_int_less_iff of_int_mult of_int_numeral mult.commute)
  have gt: "1 / 2 < real_of_int (a mod b) / real_of_int b \<longleftrightarrow> b < 2 * (a mod b)"
    using assms by (simp add: field_simps) (metis of_int_less_iff of_int_mult of_int_numeral mult.commute)
  show ?thesis
    unfolding rne_def Let_def f d lt gt by simp
qed

lemma fl_08: "fl 0.8 = 3602879701896397 / 2 ^ 52"
proof -
  have "fl 0.8 = real_of_int (rne (0.8 / 2 powi (- 1 - 52))) * 2 powi (- 1 - 52)"
    by (rule fl_eval) simp_all
  also have "0.8 / 2 powi (- 1 - 52) = real_of_int 36028797018963968 / real_of_int 5"
    by simp
  also have "rne (real_of_int 36028797018963968 / real_of_int 5) = 7205759403792794"
    by (subst rne_fraction) simp_all
  finally show ?thesis by simp
qed

subsection \<open>Bounds of rounded results\<close>

text \<open>A rounded result stays between representable bounds of its argument.\<close>

lemma fl_bracket:
  assumes "a \<le> x" and "x \<le> b" and "fl a = a" and "fl b = b"
  shows "a \<le> fl x" and "fl x \<le> b"
  using fl_mono [OF assms(1)] fl_mono [OF assms(2)] assms(3,4) by simp_all

text \<open>Magnitudes: rounding does not leave an interval bounded by a power of two.\<close>

lemma abs_fl_le:
  assumes "\<bar>x\<bar> \<le> 2 ^ k"
  shows "\<bar>fl x\<bar> \<le> 2 ^ k"
proof -
  have "fl (real_of_int 1 * 2 powi (int k)) = real_of_int 1 * 2 powi (int k)"
    by (rule fl_repr) simp_all
  then have p: "fl (2 ^ k) = 2 ^ k" by simp
  have "fl x \<le> fl (2 ^ k)" using assms by (intro fl_mono) simp
  moreover have "fl (- (2 ^ k)) \<le> fl x" using assms by (intro fl_mono) simp
  ultimately show ?thesis by (simp add: p fl_minus abs_le_iff)
qed

lemma pow2_le: "i \<le> j \<Longrightarrow> \<bar>a\<bar> \<le> 2 ^ i \<Longrightarrow> \<bar>a::real\<bar> \<le> 2 ^ j"
  by (meson order_trans power_increasing one_le_numeral)

lemma dadd_bound:
  assumes "\<bar>a\<bar> \<le> 2 ^ i" and "\<bar>b\<bar> \<le> 2 ^ i"
  shows "\<bar>dadd a b\<bar> \<le> 2 ^ Suc i"
  unfolding dadd_def using assms by (intro abs_fl_le) (simp add: abs_le_iff)

lemma dsub_bound:
  assumes "\<bar>a\<bar> \<le> 2 ^ i" and "\<bar>b\<bar> \<le> 2 ^ i"
  shows "\<bar>dsub a b\<bar> \<le> 2 ^ Suc i"
  unfolding dsub_def using assms by (intro abs_fl_le) (simp add: abs_le_iff)

lemma dmul_bound:
  assumes "\<bar>a\<bar> \<le> 2 ^ i" and "\<bar>b\<bar> \<le> 2 ^ j"
  shows "\<bar>dmul a b\<bar> \<le> 2 ^ (i + j)"
proof -
  have "\<bar>a\<bar> * \<bar>b\<bar> \<le> 2 ^ i * 2 ^ j"
    using assms by (intro mult_mono) simp_all
  then have "\<bar>a * b\<bar> \<le> 2 ^ (i + j)" by (simp add: abs_mult power_add)
  then show ?thesis unfolding dmul_def by (rule abs_fl_le)
qed

lemma ddiv_bound:
  assumes "\<bar>a\<bar> \<le> 2 ^ i" and "1 \<le> b"
  shows "\<bar>ddiv a b\<bar> \<le> 2 ^ i"
proof -
  have "\<bar>a\<bar> / b \<le> \<bar>a\<bar> / 1"
    using assms(2) by (intro divide_left_mono) simp_all
  then have "\<bar>a / b\<bar> \<le> 2 ^ i" using assms by simp
  then show ?thesis unfolding ddiv_def by (rule abs_fl_le)
qed

text \<open>
  The rounding error is at most half a unit in the last place, so two numbers further
  apart than one unit of the larger binade keep their strict order.
\<close>

lemma rne_error: "\<bar>real_of_int (rne r) - r\<bar> \<le> 1 / 2"
proof -
  have "real_of_int \<lfloor>r\<rfloor> \<le> r" "r < real_of_int \<lfloor>r\<rfloor> + 1" by linarith+
  then show ?thesis by (auto simp add: rne_def Let_def)
qed

lemma fl_error_pos:
  assumes "0 < x"
  shows "\<bar>fl x - x\<bar> \<le> ulp x / 2"
proof -
  define u where "u = ulp x"
  have u: "0 < u" by (simp add: u_def)
  have "fl x - x = (real_of_int (rne (x / u)) - x / u) * u"
    using u by (simp add: fl_pos [OF assms] u_def [symmetric] algebra_simps)
  then have "\<bar>fl x - x\<bar> = \<bar>real_of_int (rne (x / u)) - x / u\<bar> * u"
    using u by (simp add: abs_mult)
  also have "\<dots> \<le> 1 / 2 * u"
    using u rne_error [of "x / u"] by (intro mult_right_mono) simp_all
  finally show ?thesis by (simp add: u_def)
qed

lemma fl_error: "\<bar>fl x - x\<bar> \<le> ulp x / 2"
proof -
  consider "0 < x" | "x = 0" | "x < 0" by linarith
  then show ?thesis
  proof cases
    case 1
    then show ?thesis by (rule fl_error_pos)
  next
    case 2
    then show ?thesis using order_less_imp_le [OF ulp_pos [of 0]] by simp
  next
    case 3
    then have "\<bar>fl (- x) - (- x)\<bar> \<le> ulp (- x) / 2" by (intro fl_error_pos) simp
    moreover have "\<bar>fl (- x) - (- x)\<bar> = \<bar>fl x - x\<bar>"
      by (simp add: fl_minus abs_minus_commute)
    ultimately show ?thesis by simp
  qed
qed

lemma binade_le:
  assumes "x \<noteq> 0" and "\<bar>x\<bar> \<le> 2 powi e" and "- 1022 \<le> e"
  shows "binade x \<le> e"
proof -
  have p: "0 < \<bar>x\<bar>" using assms(1) by simp
  have "2 powi \<lfloor>log 2 \<bar>x\<bar>\<rfloor> \<le> \<bar>x\<bar>" using p by (rule log2_bounds)
  then have "(2::real) powi \<lfloor>log 2 \<bar>x\<bar>\<rfloor> \<le> 2 powi e" using assms(2) by linarith
  then have "\<lfloor>log 2 \<bar>x\<bar>\<rfloor> \<le> e"
    using power_int_strict_increasing [of e "\<lfloor>log 2 \<bar>x\<bar>\<rfloor>" "2::real"] by (cases "\<lfloor>log 2 \<bar>x\<bar>\<rfloor> \<le> e") simp_all
  then show ?thesis using assms(3) by (simp add: binade_def)
qed

lemma fl_error_bound:
  assumes "\<bar>x\<bar> \<le> 2 powi e" and "- 1022 \<le> e"
  shows "\<bar>fl x - x\<bar> \<le> 2 powi (e - 53)"
proof (cases "x = 0")
  case True
  then show ?thesis by (simp add: zero_le_power_int)
next
  case False
  have "binade x - 52 \<le> e - 52" using binade_le [OF False assms] by simp
  then have "ulp x \<le> 2 powi (e - 52)"
    unfolding ulp_def by (intro power_int_increasing) simp_all
  moreover have "(2::real) powi (e - 52) = 2 * 2 powi (e - 53)"
    using power_int_add [of "2::real" 1 "e - 53"] by simp
  ultimately show ?thesis using fl_error [of x] by simp
qed

lemma fl_pow2: "- 1074 \<le> k \<Longrightarrow> fl (2 powi k) = 2 powi k"
  using fl_repr [of 1 k] by simp

lemma fl_strict:
  assumes "\<bar>x\<bar> \<le> 2 powi e" and "\<bar>y\<bar> \<le> 2 powi e" and "- 1022 \<le> e"
    and "2 powi (e - 52) < y - x"
  shows "fl x < fl y"
proof -
  have "(2::real) powi (e - 52) = 2 * 2 powi (e - 53)"
    using power_int_add [of "2::real" 1 "e - 53"] by simp
  then show ?thesis
    using fl_error_bound [OF assms(1,3)] fl_error_bound [OF assms(2,3)] assms(4)
    by (simp add: abs_le_iff)
qed

lemma powi_le_imp_le:
  assumes "(2::real) powi a \<le> 2 powi b"
  shows "a \<le> b"
  using assms power_int_strict_increasing [of b a "2::real"] by (cases "a \<le> b") simp_all

text \<open>Above the subnormal range the error is at most \<open>2\<^sup>-\<^sup>5\<^sup>3\<close> of the argument.\<close>

lemma fl_rel_error:
  assumes "2 powi (- 1022) \<le> \<bar>x\<bar>"
  shows "\<bar>fl x - x\<bar> \<le> \<bar>x\<bar> * 2 powi (- 53)"
proof -
  have p: "0 < \<bar>x\<bar>"
    using assms zero_less_power_int [of "2::real" "- 1022"] by linarith
  define e where "e = \<lfloor>log 2 \<bar>x\<bar>\<rfloor>"
  have b: "2 powi e \<le> \<bar>x\<bar>" "\<bar>x\<bar> < 2 powi (e + 1)"
    unfolding e_def using p by (rule log2_bounds)+
  have "(2::real) powi (- 1022) < 2 powi (e + 1)" using assms b(2) by linarith
  then have "- 1022 < e + 1"
    using power_int_increasing [of "e + 1" "- 1022" "2::real"] by (cases "- 1022 < e + 1") simp_all
  then have "binade x = e" by (simp add: binade_def e_def)
  then have "ulp x = 2 * (2 powi e * 2 powi (- 53))"
    using power_int_add [of "2::real" e "- 53"] power_int_add [of "2::real" 1 "e - 53"]
    by (simp add: ulp_def)
  moreover have "2 powi e * 2 powi (- 53) \<le> \<bar>x\<bar> * 2 powi (- 53)"
    using b(1) by (intro mult_right_mono) simp_all
  ultimately show ?thesis using fl_error [of x] by linarith
qed

lemma fl_rel_pos:
  assumes "2 powi (- 1022) \<le> x"
  shows "x * (1 - 1 / 2 ^ 53) \<le> fl x" and "fl x \<le> x * (1 + 1 / 2 ^ 53)"
proof -
  define c :: real where "c = 1 / 2 ^ 53"
  have p: "0 < x" using assms zero_less_power_int [of "2::real" "- 1022"] by linarith
  then have ax: "\<bar>x\<bar> = x" by simp
  have "2 powi (- 1022) \<le> \<bar>x\<bar>" unfolding ax by (rule assms)
  then have e: "\<bar>fl x - x\<bar> \<le> \<bar>x\<bar> * 2 powi (- 53)" by (rule fl_rel_error)
  have c: "(2::real) powi (- 53) = c" by (simp add: c_def power_int_minus inverse_eq_divide)
  have "\<bar>fl x - x\<bar> \<le> x * c" using e unfolding ax c .
  then have "x - x * c \<le> fl x" "fl x \<le> x + x * c"
    by (simp_all add: abs_le_iff)
  then have "x * (1 - c) \<le> fl x" "fl x \<le> x * (1 + c)"
    by (simp_all add: algebra_simps)
  then show "x * (1 - 1 / 2 ^ 53) \<le> fl x" and "fl x \<le> x * (1 + 1 / 2 ^ 53)"
    unfolding c_def .
qed

text \<open>A rounding is determined by the nearest multiple of the unit in the last place.\<close>

lemma rne_near:
  assumes "real_of_int m - 1 / 2 < r" and "r < real_of_int m + 1 / 2"
  shows "rne r = m"
proof -
  have f: "\<lfloor>r\<rfloor> = m \<or> \<lfloor>r\<rfloor> = m - 1" using assms by linarith
  have "real_of_int \<lfloor>r\<rfloor> \<le> r" "r < real_of_int \<lfloor>r\<rfloor> + 1" by linarith+
  then show ?thesis using f assms by (auto simp add: rne_def Let_def)
qed

lemma fl_near:
  assumes "2 powi e \<le> x" and "x < 2 powi (e + 1)" and "- 1022 \<le> e"
    and "(real_of_int m - 1 / 2) * 2 powi (e - 52) < x"
    and "x < (real_of_int m + 1 / 2) * 2 powi (e - 52)"
  shows "fl x = real_of_int m * 2 powi (e - 52)"
proof -
  have u: "0 < (2::real) powi (e - 52)" by simp
  have "real_of_int m - 1 / 2 < x / 2 powi (e - 52)"
    using assms(4) u by (simp add: pos_less_divide_eq)
  moreover have "x / 2 powi (e - 52) < real_of_int m + 1 / 2"
    using assms(5) u by (simp add: pos_divide_less_eq)
  ultimately have "rne (x / 2 powi (e - 52)) = m" by (rule rne_near)
  then show ?thesis using fl_eval [OF assms(1,2,3)] by simp
qed

subsection \<open>Values of the rounding\<close>

text \<open>
  The roundings met when the program is traced on the sample states below, each computed
  from the definition: the argument is written as a fraction over its unit in the last
  place and rounded to the nearest integer, ties to even.
\<close>

lemma fl_value_0: "fl (1 / 4503599627370496) = 1 / 4503599627370496"
  using fl_repr [of 1 "- 52"] by simp

lemma fl_value_1: "fl 800 = 800"
  using fl_repr [of 25 5] by simp

lemma fl_value_2: "fl (3 / 2) = 3 / 2"
  using fl_repr [of 3 "- 1"] by simp

lemma fl_value_3: "fl 3 = 3"
  using fl_repr [of 3 0] by simp

lemma fl_value_4: "fl 300 = 300"
  using fl_repr [of 75 2] by simp

lemma fl_value_5: "fl 600 = 600"
  using fl_repr [of 75 3] by simp

lemma fl_value_6: "fl (1 / 2) = 1 / 2"
  using fl_repr [of 1 "- 1"] by simp

lemma fl_value_7: "fl (4 / 5) = 3602879701896397 / 4503599627370496"
proof -
  have "fl (4 / 5) = real_of_int (rne ((4 / 5) / 2 powi (- 1 - 52))) * 2 powi (- 1 - 52)"
    by (rule fl_eval) simp_all
  also have "(4 / 5) / 2 powi (- 1 - 52) = real_of_int 36028797018963968 / real_of_int 5"
    by simp
  also have "rne (real_of_int 36028797018963968 / real_of_int 5) = 7205759403792794"
    by (subst rne_fraction) simp_all
  finally show ?thesis by simp
qed

lemma fl_value_8: "fl (3602879701896397 / 20282409603651670423947251286016) = 3602879701896397 / 20282409603651670423947251286016"
  using fl_repr [of 3602879701896397 "- 104"] by simp

lemma fl_value_9: "fl (10808639105689191 / 4503599627370496) = 1351079888211149 / 562949953421312"
proof -
  have "fl (10808639105689191 / 4503599627370496) = real_of_int (rne ((10808639105689191 / 4503599627370496) / 2 powi (1 - 52))) * 2 powi (1 - 52)"
    by (rule fl_eval) simp_all
  also have "(10808639105689191 / 4503599627370496) / 2 powi (1 - 52) = real_of_int 10808639105689191 / real_of_int 2"
    by simp
  also have "rne (real_of_int 10808639105689191 / real_of_int 2) = 5404319552844596"
    by (subst rne_fraction) simp_all
  finally show ?thesis by simp
qed

lemma fl_value_10: "fl (3602879701896397 / 40564819207303340847894502572032) = 3602879701896397 / 40564819207303340847894502572032"
  using fl_repr [of 3602879701896397 "- 105"] by simp

lemma fl_value_11: "fl (60847228810955007668962051961651 / 40564819207303340847894502572032) = 3 / 2"
proof -
  have "fl (60847228810955007668962051961651 / 40564819207303340847894502572032) = real_of_int (rne ((60847228810955007668962051961651 / 40564819207303340847894502572032) / 2 powi (0 - 52))) * 2 powi (0 - 52)"
    by (rule fl_eval) simp_all
  also have "(60847228810955007668962051961651 / 40564819207303340847894502572032) / 2 powi (0 - 52) = real_of_int 60847228810955007668962051961651 / real_of_int 9007199254740992"
    by simp
  also have "rne (real_of_int 60847228810955007668962051961651 / real_of_int 9007199254740992) = 6755399441055744"
    by (subst rne_fraction) simp_all
  finally show ?thesis by simp
qed

lemma fl_value_12: "fl (60847228810955014874721455754445 / 40564819207303340847894502572032) = 3 / 2"
proof -
  have "fl (60847228810955014874721455754445 / 40564819207303340847894502572032) = real_of_int (rne ((60847228810955014874721455754445 / 40564819207303340847894502572032) / 2 powi (0 - 52))) * 2 powi (0 - 52)"
    by (rule fl_eval) simp_all
  also have "(60847228810955014874721455754445 / 40564819207303340847894502572032) / 2 powi (0 - 52) = real_of_int 60847228810955014874721455754445 / real_of_int 9007199254740992"
    by simp
  also have "rne (real_of_int 60847228810955014874721455754445 / real_of_int 9007199254740992) = 6755399441055744"
    by (subst rne_fraction) simp_all
  finally show ?thesis by simp
qed

lemma fl_value_13: "fl (1351079888211149 / 1125899906842624) = 1351079888211149 / 1125899906842624"
  using fl_repr [of 1351079888211149 "- 50"] by simp

lemma fl_value_14: "fl (7 / 2) = 7 / 2"
  using fl_repr [of 7 "- 1"] by simp

lemma fl_value_15: "fl 400 = 400"
  using fl_repr [of 25 4] by simp

lemma fl_value_16: "fl (7 / 4) = 7 / 4"
  using fl_repr [of 7 "- 2"] by simp

lemma fl_value_17: "fl (3 / 4) = 3 / 4"
  using fl_repr [of 3 "- 2"] by simp

lemma fl_value_18: "fl (25220157913274779 / 9007199254740992) = 6305039478318695 / 2251799813685248"
proof -
  have "fl (25220157913274779 / 9007199254740992) = real_of_int (rne ((25220157913274779 / 9007199254740992) / 2 powi (1 - 52))) * 2 powi (1 - 52)"
    by (rule fl_eval) simp_all
  also have "(25220157913274779 / 9007199254740992) / 2 powi (1 - 52) = real_of_int 25220157913274779 / real_of_int 4"
    by simp
  also have "rne (real_of_int 25220157913274779 / real_of_int 4) = 6305039478318695"
    by (subst rne_fraction) simp_all
  finally show ?thesis by simp
qed

lemma fl_value_19: "fl (6305039478318695 / 4503599627370496) = 6305039478318695 / 4503599627370496"
  using fl_repr [of 6305039478318695 "- 52"] by simp

lemma fl_value_20: "fl (9682739198846567 / 4503599627370496) = 1210342399855821 / 562949953421312"
proof -
  have "fl (9682739198846567 / 4503599627370496) = real_of_int (rne ((9682739198846567 / 4503599627370496) / 2 powi (1 - 52))) * 2 powi (1 - 52)"
    by (rule fl_eval) simp_all
  also have "(9682739198846567 / 4503599627370496) / 2 powi (1 - 52) = real_of_int 9682739198846567 / real_of_int 2"
    by simp
  also have "rne (real_of_int 9682739198846567 / real_of_int 2) = 4841369599423284"
    by (subst rne_fraction) simp_all
  finally show ?thesis by simp
qed

lemma fl_value_21: "fl (2927339757790823 / 4503599627370496) = 2927339757790823 / 4503599627370496"
  using fl_repr [of 2927339757790823 "- 52"] by simp

lemma fl_value_22: "fl (12610078956637391 / 4503599627370496) = 788129934789837 / 281474976710656"
proof -
  have "fl (12610078956637391 / 4503599627370496) = real_of_int (rne ((12610078956637391 / 4503599627370496) / 2 powi (1 - 52))) * 2 powi (1 - 52)"
    by (rule fl_eval) simp_all
  also have "(12610078956637391 / 4503599627370496) / 2 powi (1 - 52) = real_of_int 12610078956637391 / real_of_int 2"
    by simp
  also have "rne (real_of_int 12610078956637391 / real_of_int 2) = 6305039478318696"
    by (subst rne_fraction) simp_all
  finally show ?thesis by simp
qed

lemma fl_value_23: "fl (985162418487296 / 788129934789837) = 5629499534213119 / 4503599627370496"
proof -
  have "fl (985162418487296 / 788129934789837) = real_of_int (rne ((985162418487296 / 788129934789837) / 2 powi (0 - 52))) * 2 powi (0 - 52)"
    by (rule fl_eval) simp_all
  also have "(985162418487296 / 788129934789837) / 2 powi (0 - 52) = real_of_int 4436777100798802905238461218816 / real_of_int 788129934789837"
    by simp
  also have "rne (real_of_int 4436777100798802905238461218816 / real_of_int 788129934789837) = 5629499534213119"
    by (subst rne_fraction) simp_all
  finally show ?thesis by simp
qed

lemma fl_value_24: "fl 1 = 1"
  using fl_repr [of 1 0] by simp

lemma fl_value_25: "fl 64 = 64"
  using fl_repr [of 1 6] by simp

lemma fl_value_26: "fl (1 / 64) = 1 / 64"
  using fl_repr [of 1 "- 6"] by simp

lemma fl_value_27: "fl (3 / 32) = 3 / 32"
  using fl_repr [of 3 "- 5"] by simp

lemma fl_value_28: "fl (900719925474099 / 4503599627370496) = 900719925474099 / 4503599627370496"
  using fl_repr [of 900719925474099 "- 52"] by simp

lemma fl_value_29: "fl (10808639105689191 / 144115188075855872) = 1351079888211149 / 18014398509481984"
proof -
  have "fl (10808639105689191 / 144115188075855872) = real_of_int (rne ((10808639105689191 / 144115188075855872) / 2 powi (- 4 - 52))) * 2 powi (- 4 - 52)"
    by (rule fl_eval) simp_all
  also have "(10808639105689191 / 144115188075855872) / 2 powi (- 4 - 52) = real_of_int 10808639105689191 / real_of_int 2"
    by simp
  also have "rne (real_of_int 10808639105689191 / real_of_int 2) = 5404319552844596"
    by (subst rne_fraction) simp_all
  finally show ?thesis by simp
qed

lemma fl_value_30: "fl (16663318621270835 / 18014398509481984) = 4165829655317709 / 4503599627370496"
proof -
  have "fl (16663318621270835 / 18014398509481984) = real_of_int (rne ((16663318621270835 / 18014398509481984) / 2 powi (- 1 - 52))) * 2 powi (- 1 - 52)"
    by (rule fl_eval) simp_all
  also have "(16663318621270835 / 18014398509481984) / 2 powi (- 1 - 52) = real_of_int 16663318621270835 / real_of_int 2"
    by simp
  also have "rne (real_of_int 16663318621270835 / real_of_int 2) = 8331659310635418"
    by (subst rne_fraction) simp_all
  finally show ?thesis by simp
qed

lemma fl_value_31: "fl (4165829655317709 / 4503599627370496) = 4165829655317709 / 4503599627370496"
  using fl_repr [of 4165829655317709 "- 52"] by simp

lemma fl_value_32: "fl (29 / 32) = 29 / 32"
  using fl_repr [of 29 "- 5"] by simp

lemma fl_value_33: "fl (104483511354995513 / 144115188075855872) = 1632554864921805 / 2251799813685248"
proof -
  have "fl (104483511354995513 / 144115188075855872) = real_of_int (rne ((104483511354995513 / 144115188075855872) / 2 powi (- 1 - 52))) * 2 powi (- 1 - 52)"
    by (rule fl_eval) simp_all
  also have "(104483511354995513 / 144115188075855872) / 2 powi (- 1 - 52) = real_of_int 104483511354995513 / real_of_int 16"
    by simp
  also have "rne (real_of_int 104483511354995513 / real_of_int 16) = 6530219459687220"
    by (subst rne_fraction) simp_all
  finally show ?thesis by simp
qed

lemma fl_value_34: "fl (619244948763443 / 2251799813685248) = 619244948763443 / 2251799813685248"
  using fl_repr [of 619244948763443 "- 51"] by simp

lemma fl_value_35: "fl 255 = 255"
  using fl_repr [of 255 0] by simp

lemma fl_value_36: "fl (157907461934677965 / 2251799813685248) = 2467304092729343 / 35184372088832"
proof -
  have "fl (157907461934677965 / 2251799813685248) = real_of_int (rne ((157907461934677965 / 2251799813685248) / 2 powi (6 - 52))) * 2 powi (6 - 52)"
    by (rule fl_eval) simp_all
  also have "(157907461934677965 / 2251799813685248) / 2 powi (6 - 52) = real_of_int 157907461934677965 / real_of_int 32"
    by simp
  also have "rne (real_of_int 157907461934677965 / real_of_int 32) = 4934608185458686"
    by (subst rne_fraction) simp_all
  finally show ?thesis by simp
qed

lemma fl_value_37: "fl (229683580995895245 / 4503599627370496) = 3588805953060863 / 70368744177664"
proof -
  have "fl (229683580995895245 / 4503599627370496) = real_of_int (rne ((229683580995895245 / 4503599627370496) / 2 powi (5 - 52))) * 2 powi (5 - 52)"
    by (rule fl_eval) simp_all
  also have "(229683580995895245 / 4503599627370496) / 2 powi (5 - 52) = real_of_int 229683580995895245 / real_of_int 32"
    by simp
  also have "rne (real_of_int 229683580995895245 / real_of_int 32) = 7177611906121726"
    by (subst rne_fraction) simp_all
  finally show ?thesis by simp
qed

lemma fl_value_38: "fl (1062286562106015795 / 4503599627370496) = 1887 / 8"
proof -
  have "fl (1062286562106015795 / 4503599627370496) = real_of_int (rne ((1062286562106015795 / 4503599627370496) / 2 powi (7 - 52))) * 2 powi (7 - 52)"
    by (rule fl_eval) simp_all
  also have "(1062286562106015795 / 4503599627370496) / 2 powi (7 - 52) = real_of_int 1062286562106015795 / real_of_int 128"
    by simp
  also have "rne (real_of_int 1062286562106015795 / real_of_int 128) = 8299113766453248"
    by (subst rne_fraction) simp_all
  finally show ?thesis by simp
qed

lemma fl_value_39: "fl 20 = 20"
  using fl_repr [of 5 2] by simp

lemma fl_value_40: "fl (5 / 16) = 5 / 16"
  using fl_repr [of 5 "- 4"] by simp

lemma fl_value_41: "fl (15 / 8) = 15 / 8"
  using fl_repr [of 15 "- 3"] by simp

lemma fl_value_42: "fl (7 / 8) = 7 / 8"
  using fl_repr [of 7 "- 3"] by simp

lemma fl_value_43: "fl (25220157913274779 / 36028797018963968) = 6305039478318695 / 9007199254740992"
proof -
  have "fl (25220157913274779 / 36028797018963968) = real_of_int (rne ((25220157913274779 / 36028797018963968) / 2 powi (- 1 - 52))) * 2 powi (- 1 - 52)"
    by (rule fl_eval) simp_all
  also have "(25220157913274779 / 36028797018963968) / 2 powi (- 1 - 52) = real_of_int 25220157913274779 / real_of_int 4"
    by simp
  also have "rne (real_of_int 25220157913274779 / real_of_int 4) = 6305039478318695"
    by (subst rne_fraction) simp_all
  finally show ?thesis by simp
qed

lemma fl_value_44: "fl (2702159776422297 / 9007199254740992) = 2702159776422297 / 9007199254740992"
  using fl_repr [of 2702159776422297 "- 53"] by simp

lemma fl_value_45: "fl (1 / 8) = 1 / 8"
  using fl_repr [of 1 "- 3"] by simp

lemma fl_value_46: "fl (3602879701896397 / 36028797018963968) = 3602879701896397 / 36028797018963968"
  using fl_repr [of 3602879701896397 "- 55"] by simp

lemma fl_value_47: "fl (32425917317067571 / 36028797018963968) = 8106479329266893 / 9007199254740992"
proof -
  have "fl (32425917317067571 / 36028797018963968) = real_of_int (rne ((32425917317067571 / 36028797018963968) / 2 powi (- 1 - 52))) * 2 powi (- 1 - 52)"
    by (rule fl_eval) simp_all
  also have "(32425917317067571 / 36028797018963968) / 2 powi (- 1 - 52) = real_of_int 32425917317067571 / real_of_int 4"
    by simp
  also have "rne (real_of_int 32425917317067571 / real_of_int 4) = 8106479329266893"
    by (subst rne_fraction) simp_all
  finally show ?thesis by simp
qed

lemma fl_value_48: "fl (8106479329266893 / 9007199254740992) = 8106479329266893 / 9007199254740992"
  using fl_repr [of 8106479329266893 "- 53"] by simp

lemma fl_value_49: "fl (2067152228963057715 / 9007199254740992) = 459 / 2"
proof -
  have "fl (2067152228963057715 / 9007199254740992) = real_of_int (rne ((2067152228963057715 / 9007199254740992) / 2 powi (7 - 52))) * 2 powi (7 - 52)"
    by (rule fl_eval) simp_all
  also have "(2067152228963057715 / 9007199254740992) / 2 powi (7 - 52) = real_of_int 2067152228963057715 / real_of_int 256"
    by simp
  also have "rne (real_of_int 2067152228963057715 / real_of_int 256) = 8074813394386944"
    by (subst rne_fraction) simp_all
  finally show ?thesis by simp
qed

lemma fl_value_50: "fl (689050742987685735 / 9007199254740992) = 5383208929591295 / 70368744177664"
proof -
  have "fl (689050742987685735 / 9007199254740992) = real_of_int (rne ((689050742987685735 / 9007199254740992) / 2 powi (6 - 52))) * 2 powi (6 - 52)"
    by (rule fl_eval) simp_all
  also have "(689050742987685735 / 9007199254740992) / 2 powi (6 - 52) = real_of_int 689050742987685735 / real_of_int 128"
    by simp
  also have "rne (real_of_int 689050742987685735 / real_of_int 128) = 5383208929591295"
    by (subst rne_fraction) simp_all
  finally show ?thesis by simp
qed

lemma fl_value_51: "fl 6 = 6"
  using fl_repr [of 3 1] by simp

lemma fl_value_52: "fl 100 = 100"
  using fl_repr [of 25 2] by simp

lemma fl_value_53: "fl 2000 = 2000"
  using fl_repr [of 125 4] by simp

lemma fl_value_54: "fl 4398046511104 = 4398046511104"
  using fl_repr [of 1 42] by simp

lemma fl_value_55: "fl 2097152 = 2097152"
  using fl_repr [of 1 21] by simp

lemma fl_value_56: "fl 209715200 = 209715200"
  using fl_repr [of 25 23] by simp

lemma fl_value_57: "fl (5 / 4) = 5 / 4"
  using fl_repr [of 5 "- 2"] by simp

lemma fl_value_58: "fl (1137 / 1024) = 1137 / 1024"
  using fl_repr [of 1137 "- 10"] by simp

lemma fl_value_59: "fl (1145 / 1024) = 1145 / 1024"
  using fl_repr [of 1145 "- 10"] by simp

lemma fl_value_60: "fl (28425 / 256) = 28425 / 256"
  using fl_repr [of 28425 "- 8"] by simp

lemma fl_value_61: "fl (28625 / 256) = 28625 / 256"
  using fl_repr [of 28625 "- 8"] by simp

lemma fl_value_62: "fl (1292769 / 1048576) = 1292769 / 1048576"
  using fl_repr [of 1292769 "- 20"] by simp

lemma fl_value_63: "fl (1311025 / 1048576) = 1311025 / 1048576"
  using fl_repr [of 1311025 "- 20"] by simp

lemma fl_value_64: "fl 1152921504606846976 = 1152921504606846976"
  using fl_repr [of 1 60] by simp

lemma fl_value_65: "fl 4611686018427387904 = 4611686018427387904"
  using fl_repr [of 1 62] by simp

lemma fl_value_66: "fl 1073741824 = 1073741824"
  using fl_repr [of 1 30] by simp

lemma fl_value_67: "fl 2147483648 = 2147483648"
  using fl_repr [of 1 31] by simp

lemma fl_value_68: "fl 107374182400 = 107374182400"
  using fl_repr [of 25 32] by simp

lemma fl_value_69: "fl 214748364800 = 214748364800"
  using fl_repr [of 25 33] by simp

lemma fl_value_70: "fl 4 = 4"
  using fl_repr [of 1 2] by simp

lemma fl_value_71: "fl 2 = 2"
  using fl_repr [of 1 1] by simp

lemma fl_value_72: "fl 200 = 200"
  using fl_repr [of 25 3] by simp

lemma fl_value_73: "fl (1 / 1073741824) = 1 / 1073741824"
  using fl_repr [of 1 "- 30"] by simp

lemma fl_value_74: "fl (1 / 1048576) = 1 / 1048576"
  using fl_repr [of 1 "- 20"] by simp

lemma fl_value_75: "fl (5 / 2) = 5 / 2"
  using fl_repr [of 5 "- 1"] by simp

lemma fl_value_76: "fl (17564038546744935 / 4503599627370496) = 2195504818343117 / 562949953421312"
proof -
  have "fl (17564038546744935 / 4503599627370496) = real_of_int (rne ((17564038546744935 / 4503599627370496) / 2 powi (1 - 52))) * 2 powi (1 - 52)"
    by (rule fl_eval) simp_all
  also have "(17564038546744935 / 4503599627370496) / 2 powi (1 - 52) = real_of_int 17564038546744935 / real_of_int 2"
    by simp
  also have "rne (real_of_int 17564038546744935 / real_of_int 2) = 8782019273372468"
    by (subst rne_fraction) simp_all
  finally show ?thesis by simp
qed

lemma fl_value_77: "fl (4953959590107545 / 4503599627370496) = 4953959590107545 / 4503599627370496"
  using fl_repr [of 4953959590107545 "- 52"] by simp

lemma fl_value_78: "fl (2195504818343117 / 562949953421312) = 2195504818343117 / 562949953421312"
  using fl_repr [of 2195504818343117 "- 49"] by simp

lemma fl_value_79: "fl (1351079888211149 / 562949953421312) = 1351079888211149 / 562949953421312"
  using fl_repr [of 1351079888211149 "- 49"] by simp

lemma fl_value_80: "fl (2839537344511234737554542517289 / 1267650600228229401496703205376) = 5044031582654957 / 2251799813685248"
proof -
  have "fl (2839537344511234737554542517289 / 1267650600228229401496703205376) = real_of_int (rne ((2839537344511234737554542517289 / 1267650600228229401496703205376) / 2 powi (1 - 52))) * 2 powi (1 - 52)"
    by (rule fl_eval) simp_all
  also have "(2839537344511234737554542517289 / 1267650600228229401496703205376) / 2 powi (1 - 52) = real_of_int 2839537344511234737554542517289 / real_of_int 562949953421312"
    by simp
  also have "rne (real_of_int 2839537344511234737554542517289 / real_of_int 562949953421312) = 5044031582654957"
    by (subst rne_fraction) simp_all
  finally show ?thesis by simp
qed

lemma fl_value_81: "fl (4867778304876401892539258330153 / 2535301200456458802993406410752) = 4323455642275677 / 2251799813685248"
proof -
  have "fl (4867778304876401892539258330153 / 2535301200456458802993406410752) = real_of_int (rne ((4867778304876401892539258330153 / 2535301200456458802993406410752) / 2 powi (0 - 52))) * 2 powi (0 - 52)"
    by (rule fl_eval) simp_all
  also have "(4867778304876401892539258330153 / 2535301200456458802993406410752) / 2 powi (0 - 52) = real_of_int 4867778304876401892539258330153 / real_of_int 562949953421312"
    by simp
  also have "rne (real_of_int 4867778304876401892539258330153 / real_of_int 562949953421312) = 8646911284551354"
    by (subst rne_fraction) simp_all
  finally show ?thesis by simp
qed

lemma fl_value_82: "fl (5044031582654957 / 4503599627370496) = 5044031582654957 / 4503599627370496"
  using fl_repr [of 5044031582654957 "- 52"] by simp

lemma fl_value_83: "fl (22608070129399893 / 4503599627370496) = 5652017532349973 / 1125899906842624"
proof -
  have "fl (22608070129399893 / 4503599627370496) = real_of_int (rne ((22608070129399893 / 4503599627370496) / 2 powi (2 - 52))) * 2 powi (2 - 52)"
    by (rule fl_eval) simp_all
  also have "(22608070129399893 / 4503599627370496) / 2 powi (2 - 52) = real_of_int 22608070129399893 / real_of_int 4"
    by simp
  also have "rne (real_of_int 22608070129399893 / real_of_int 4) = 5652017532349973"
    by (subst rne_fraction) simp_all
  finally show ?thesis by simp
qed

lemma fl_value_84: "fl (12520006964089979 / 4503599627370496) = 3130001741022495 / 1125899906842624"
proof -
  have "fl (12520006964089979 / 4503599627370496) = real_of_int (rne ((12520006964089979 / 4503599627370496) / 2 powi (1 - 52))) * 2 powi (1 - 52)"
    by (rule fl_eval) simp_all
  also have "(12520006964089979 / 4503599627370496) / 2 powi (1 - 52) = real_of_int 12520006964089979 / real_of_int 2"
    by simp
  also have "rne (real_of_int 12520006964089979 / real_of_int 2) = 6260003482044990"
    by (subst rne_fraction) simp_all
  finally show ?thesis by simp
qed

lemma fl_value_85: "fl (4323455642275677 / 4503599627370496) = 4323455642275677 / 4503599627370496"
  using fl_repr [of 4323455642275677 "- 52"] by simp

lemma fl_value_86: "fl (1261007895663739 / 562949953421312) = 1261007895663739 / 562949953421312"
  using fl_repr [of 1261007895663739 "- 49"] by simp

lemma fl_value_87: "fl (1970324836974592 / 1261007895663739) = 7036874417766399 / 4503599627370496"
proof -
  have "fl (1970324836974592 / 1261007895663739) = real_of_int (rne ((1970324836974592 / 1261007895663739) / 2 powi (0 - 52))) * 2 powi (0 - 52)"
    by (rule fl_eval) simp_all
  also have "(1970324836974592 / 1261007895663739) / 2 powi (0 - 52) = real_of_int 8873554201597605810476922437632 / real_of_int 1261007895663739"
    by simp
  also have "rne (real_of_int 8873554201597605810476922437632 / real_of_int 1261007895663739) = 7036874417766399"
    by (subst rne_fraction) simp_all
  finally show ?thesis by simp
qed

lemma fl_value_88: "fl 125 = 125"
  using fl_repr [of 125 0] by simp

lemmas fl_values =
  fl_value_0 fl_value_1 fl_value_2 fl_value_3 fl_value_4 fl_value_5 fl_value_6 fl_value_7
  fl_value_8 fl_value_9 fl_value_10 fl_value_11 fl_value_12 fl_value_13 fl_value_14
  fl_value_15 fl_value_16 fl_value_17 fl_value_18 fl_value_19 fl_value_20 fl_value_21
  fl_value_22 fl_value_23 fl_value_24 fl_value_25 fl_value_26 fl_value_27 fl_value_28
  fl_value_29 fl_value_30 fl_value_31 fl_value_32 fl_value_33 fl_value_34 fl_value_35
  fl_value_36 fl_value_37 fl_value_38 fl_value_39 fl_value_40 fl_value_41 fl_value_42
  fl_value_43 fl_value_44 fl_value_45 fl_value_46 fl_value_47 fl_value_48 fl_value_49
  fl_value_50 fl_value_51 fl_value_52 fl_value_53 fl_value_54 fl_value_55 fl_value_56
  fl_value_57 fl_value_58 fl_value_59 fl_value_60 fl_value_61 fl_value_62 fl_value_63
  fl_value_64 fl_value_65 fl_value_66 fl_value_67 fl_value_68 fl_value_69 fl_value_70
  fl_value_71 fl_value_72 fl_value_73 fl_value_74 fl_value_75 fl_value_76 fl_value_77
  fl_value_78 fl_value_79 fl_value_80 fl_value_81 fl_value_82 fl_value_83 fl_value_84
  fl_value_85 fl_value_86 fl_value_87 fl_value_88

lemmas double_ops = dadd_def dsub_def dmul_def ddiv_def mapValue_double_def fl_minus

section \<open>Properties of the escape-time evaluators\<close>

lemma mandel_loop_ge: "iteration \<le> mandel_loop creal cimag maxIter x y x2 y2 iteration"
proof (induction creal cimag maxIter x y x2 y2 iteration rule: mandel_loop.induct)
  case (1 creal cimag maxIter x y x2 y2 iteration)
  show ?case
  proof (cases "x2 + y2 < 4 \<and> iteration < maxIter")
    case True
    from "1.IH" [OF True refl refl]
    have "iteration + 1 \<le> mandel_loop creal cimag maxIter x y x2 y2 iteration"
      using True by (subst mandel_loop.simps) (simp add: Let_def)
    then show ?thesis by simp
  next
    case False
    then show ?thesis by (subst mandel_loop.simps) auto
  qed
qed

text \<open>With a positive budget the first pass through the loop body always happens.\<close>

lemma mandel_loop_first:
  assumes "0 < maxIter"
  shows "calculateMandelbrot creal cimag maxIter =
         mandel_loop creal cimag maxIter creal cimag (creal * creal) (cimag * cimag) 1"
  unfolding calculateMandelbrot_def using assms
  by (subst mandel_loop.simps) (simp add: Let_def)

lemma mandel_loop_stop:
  "\<not> (x2 + y2 < 4 \<and> iteration < maxIter) \<Longrightarrow>
   mandel_loop creal cimag maxIter x y x2 y2 iteration = iteration"
  by (subst mandel_loop.simps) auto

text \<open>The orbit of 0 under \<open>c = 0\<close> stays at 0.\<close>

lemma mandel_loop_origin:
  "iteration \<le> maxIter \<Longrightarrow> mandel_loop 0 0 maxIter 0 0 0 0 iteration = maxIter"
proof (induction "nat (maxIter - iteration)" arbitrary: iteration)
  case 0
  then show ?case by (simp add: mandel_loop_stop)
next
  case (Suc n)
  then have lt: "iteration < maxIter" and n: "n = nat (maxIter - (iteration + 1))"
    by linarith+
  have "mandel_loop 0 0 maxIter 0 0 0 0 iteration =
        mandel_loop 0 0 maxIter 0 0 0 0 (iteration + 1)"
    using lt by (subst mandel_loop.simps) (simp add: Let_def)
  also have "\<dots> = maxIter"
    using Suc.hyps(1) [OF n] lt by simp
  finally show ?case .
qed

text \<open>The orbit of 0 under \<open>c = -1\<close> alternates between 0 and -1.\<close>

lemma mandel_loop_minus_one:
  "iteration \<le> maxIter \<Longrightarrow>
   mandel_loop (- 1) 0 maxIter 0 0 0 0 iteration = maxIter \<and>
   mandel_loop (- 1) 0 maxIter (- 1) 0 1 0 iteration = maxIter"
proof (induction "nat (maxIter - iteration)" arbitrary: iteration)
  case 0
  then show ?case by (simp add: mandel_loop_stop)
next
  case (Suc n)
  then have lt: "iteration < maxIter" and n: "n = nat (maxIter - (iteration + 1))"
    by linarith+
  have a: "mandel_loop (- 1) 0 maxIter 0 0 0 0 iteration =
        mandel_loop (- 1) 0 maxIter (- 1) 0 1 0 (iteration + 1)"
    using lt by (subst mandel_loop.simps) (simp add: Let_def)
  have b: "mandel_loop (- 1) 0 maxIter (- 1) 0 1 0 iteration =
        mandel_loop (- 1) 0 maxIter 0 0 0 0 (iteration + 1)"
    using lt by (subst mandel_loop.simps) (simp add: Let_def)
  from Suc.hyps(1) [OF n] lt a b show ?case by simp
qed

text \<open>
  Claim C2.  For every budget \<open>maxIter \<ge> 1\<close> the evaluator of 2man.cpp returns exactly
  \<open>maxIter\<close> at the points \<open>(0, 0)\<close> and \<open>(-1, 0)\<close>: both orbits are bounded, so the loop
  runs until the cap.
\<close>

theorem bounded_orbit_returns_budget:
  "1 \<le> maxIter \<Longrightarrow>
   calculateMandelbrot 0 0 maxIter = maxIter \<and> calculateMandelbrot (- 1) 0 maxIter = maxIter"
  by (simp add: calculateMandelbrot_def mandel_loop_origin mandel_loop_minus_one)

theorem bounded_orbit_returns_budget_witness:
  "(1::int) \<le> 100 \<and> calculateMandelbrot 0 0 100 = 100 \<and> calculateMandelbrot (- 1) 0 100 = 100"
  using bounded_orbit_returns_budget [of 100] by simp

text \<open>
  Claim C3 as stated (a point with \<open>real\<^sup>2 + imag\<^sup>2 \<ge> 4\<close> yields 0 iterations) fails:
  the point \<open>(2, 0)\<close> satisfies the premise and the evaluator returns a count other than 0
  for the budget 100.
\<close>

theorem immediate_escape_counterexample:
  "(2::real)\<^sup>2 + 0\<^sup>2 \<ge> 4 \<and> (0::int) < 100 \<and> calculateMandelbrot 2 0 100 \<noteq> 0"
  by (simp add: mandel_loop_first mandel_loop_stop)

text \<open>
  Claim C3, amended.  For every point with \<open>real\<^sup>2 + imag\<^sup>2 \<ge> 4\<close> and every positive
  budget the evaluator returns 1: the escape test precedes the update and starts from
  the orbit value 0, so the body runs once and the test then sees the point itself.
\<close>

theorem immediate_escape_returns_one:
  assumes "creal\<^sup>2 + cimag\<^sup>2 \<ge> 4" and "0 < maxIter"
  shows "calculateMandelbrot creal cimag maxIter = 1"
  using assms by (simp add: mandel_loop_first mandel_loop_stop power2_eq_square)

theorem immediate_escape_returns_one_witness:
  "(2::real)\<^sup>2 + 0\<^sup>2 \<ge> 4 \<and> (0::int) < 100 \<and> calculateMandelbrot 2 0 100 = 1"
  using immediate_escape_returns_one [of 2 0 100] by simp

lemma naive_loop_ge: "iteration \<le> naive_loop c z iteration"
proof (induction c z iteration rule: naive_loop.induct)
  case (1 c z iteration)
  show ?case
  proof (cases "cmod z < 2 \<and> iteration < MAX_ITERATIONS_man")
    case True
    from "1.IH" [OF True]
    have "iteration + 1 \<le> naive_loop c z iteration"
      using True by (subst naive_loop.simps) simp
    then show ?thesis by simp
  next
    case False
    then show ?thesis by (subst naive_loop.simps) auto
  qed
qed

text \<open>
  Claim C9.  For every point and every budget \<open>maxIter \<ge> 1\<close> the evaluator returns at
  least 1, in 2man.cpp and (with its fixed cap 1000) in man.cpp: the first escape test
  sees the orbit value 0, so the loop body runs at least once.
\<close>

theorem evaluator_at_least_one:
  "1 \<le> maxIter \<Longrightarrow>
   1 \<le> calculateMandelbrot creal cimag maxIter \<and> 1 \<le> calculateMandelbrot_man creal cimag"
proof
  assume m: "1 \<le> maxIter"
  have "1 \<le> mandel_loop creal cimag maxIter creal cimag (creal * creal) (cimag * cimag) 1"
    by (rule mandel_loop_ge)
  then show "1 \<le> calculateMandelbrot creal cimag maxIter"
    using m by (simp add: mandel_loop_first)
next
  have "naive_loop (Complex creal cimag) (Complex 0 0) 0 =
        naive_loop (Complex creal cimag) (Complex 0 0 * Complex 0 0 + Complex creal cimag) (0 + 1)"
    by (subst naive_loop.simps) (simp add: MAX_ITERATIONS_man_def cmod_def)
  moreover have "0 + 1 \<le> naive_loop (Complex creal cimag)
                   (Complex 0 0 * Complex 0 0 + Complex creal cimag) (0 + 1)"
    by (rule naive_loop_ge)
  ultimately show "1 \<le> calculateMandelbrot_man creal cimag"
    by (simp add: calculateMandelbrot_man_def)
qed

theorem evaluator_at_least_one_witness:
  "(1::int) \<le> 100 \<and> 1 \<le> calculateMandelbrot 2 0 100 \<and> 1 \<le> calculateMandelbrot_man 2 0"
  using evaluator_at_least_one [of 100 2 0] by simp

lemma cmod_less_2_iff: "cmod z < 2 \<longleftrightarrow> Re z * Re z + Im z * Im z < 4"
proof -
  have "cmod z < 2 \<longleftrightarrow> sqrt ((Re z)\<^sup>2 + (Im z)\<^sup>2) < sqrt 4"
    by (simp add: cmod_def)
  also have "\<dots> \<longleftrightarrow> (Re z)\<^sup>2 + (Im z)\<^sup>2 < 4"
    by (rule real_sqrt_less_iff)
  finally show ?thesis by (simp add: power2_eq_square)
qed

text \<open>
  The loop on complex numbers and the loop on tracked squares stay in step: the state of
  the second is the real part, the imaginary part and their squares of the first.
\<close>

lemma naive_loop_eq_mandel_loop:
  "naive_loop (Complex creal cimag) z iteration =
   mandel_loop creal cimag MAX_ITERATIONS_man (Re z) (Im z) (Re z * Re z) (Im z * Im z) iteration"
proof (induction "Complex creal cimag" z iteration rule: naive_loop.induct)
  case (1 z iteration)
  show ?case
  proof (cases "cmod z < 2 \<and> iteration < MAX_ITERATIONS_man")
    case True
    then have t: "Re z * Re z + Im z * Im z < 4 \<and> iteration < MAX_ITERATIONS_man"
      by (simp add: cmod_less_2_iff)
    have "naive_loop (Complex creal cimag) z iteration =
          naive_loop (Complex creal cimag) (z * z + Complex creal cimag) (iteration + 1)"
      using True by (subst naive_loop.simps) simp
    also have "\<dots> = mandel_loop creal cimag MAX_ITERATIONS_man
                       (Re (z * z + Complex creal cimag)) (Im (z * z + Complex creal cimag))
                       (Re (z * z + Complex creal cimag) * Re (z * z + Complex creal cimag))
                       (Im (z * z + Complex creal cimag) * Im (z * z + Complex creal cimag))
                       (iteration + 1)"
      by (rule "1.hyps" [OF True])
    also have "\<dots> = mandel_loop creal cimag MAX_ITERATIONS_man (Re z) (Im z)
                       (Re z * Re z) (Im z * Im z) iteration"
      using t by (subst (2) mandel_loop.simps) (simp add: Let_def mult_ac)
    finally show ?thesis .
  next
    case False
    then have f: "\<not> (Re z * Re z + Im z * Im z < 4 \<and> iteration < MAX_ITERATIONS_man)"
      by (simp add: cmod_less_2_iff)
    have "naive_loop (Complex creal cimag) z iteration = iteration"
      using False by (subst naive_loop.simps) auto
    with f show ?thesis by (simp add: mandel_loop_stop)
  qed
qed

text \<open>
  Claim C10.  In exact real arithmetic the evaluator of man.cpp (iteration of
  \<open>z = z * z + c\<close> on complex numbers, escape test \<open>|z| < 2\<close>, cap 1000) and the evaluator
  of 2man.cpp called with \<open>maxIter = 1000\<close> return the same count at every point.
\<close>

theorem naive_evaluator_eq_optimized:
  "calculateMandelbrot_man creal cimag = calculateMandelbrot creal cimag 1000"
  by (simp add: calculateMandelbrot_man_def calculateMandelbrot_def naive_loop_eq_mandel_loop
      MAX_ITERATIONS_man_def)

section \<open>Properties of the renderer\<close>

text \<open>
  The sector \<^verbatim>\<open>i\<close> of the colour conversion lies in \<open>{0, \<dots>, 5}\<close> for every count the
  evaluator returns, so one of the six cases of the \<^verbatim>\<open>switch\<close> is taken.
\<close>

lemma hue_value:
  assumes "0 \<le> k" and "k < 64"
  shows "mapValue_double (real_of_int k) 0 64 0 1 = real_of_int k / 64"
proof -
  have a: "fl (real_of_int k) = real_of_int k"
    using assms by (intro fl_of_int) simp
  have "fl (real_of_int k * 2 powi (- 6)) = real_of_int k * 2 powi (- 6)"
    using assms by (intro fl_repr) simp_all
  then have b: "fl (real_of_int k / 64) = real_of_int k / 64" by simp
  show ?thesis
    by (simp add: mapValue_double_def dadd_def dsub_def dmul_def ddiv_def a b fl_values)
qed

lemma sector_range:
  assumes "0 \<le> iterations"
  shows "0 \<le> trunc (dmul (mapValue_double (real_of_int (iterations smod 64)) 0 64 0 1) 6)"
    and "trunc (dmul (mapValue_double (real_of_int (iterations smod 64)) 0 64 0 1) 6) \<le> 5"
proof -
  define k where "k = iterations smod 64"
  have m: "k = iterations mod 64"
    using assms by (simp add: k_def signed_modulo_int_def sgn_if)
  have k: "0 \<le> k" "k < 64" by (simp_all add: m)
  have "fl (real_of_int (3 * k) * 2 powi (- 5)) = real_of_int (3 * k) * 2 powi (- 5)"
    using k by (intro fl_repr) simp_all
  then have "fl (real_of_int k / 64 * 6) = real_of_int k * 3 / 32" by simp
  then have h: "dmul (mapValue_double (real_of_int k) 0 64 0 1) 6 = real_of_int k * 3 / 32"
    by (simp add: hue_value [OF k] dmul_def)
  have r: "0 \<le> real_of_int k * 3 / 32" "real_of_int k * 3 / 32 < 6"
    using k by simp_all
  show "0 \<le> trunc (dmul (mapValue_double (real_of_int (iterations smod 64)) 0 64 0 1) 6)"
    unfolding k_def [symmetric] h using r(1) by (simp add: trunc_def)
  have "\<lfloor>real_of_int k * 3 / 32\<rfloor> < 6" using r(2) by (simp add: floor_less_iff)
  then show "trunc (dmul (mapValue_double (real_of_int (iterations smod 64)) 0 64 0 1) 6) \<le> 5"
    unfolding k_def [symmetric] h using r(1) by (simp add: trunc_def)
qed

text \<open>Two colours, as the program stores them: the third channel is 50, not 51.\<close>

lemma pixel_colour_1: "pixelColour 1 100 = (255, 70, 50)"
  by (simp add: pixelColour_def Let_def double_ops fl_values trunc_def double_to_Uint8_def
      signed_modulo_int_def)

lemma pixel_colour_20: "pixelColour 20 100 = (76, 255, 50)"
  by (simp add: pixelColour_def Let_def double_ops fl_values trunc_def double_to_Uint8_def
      signed_modulo_int_def)

lemma renderMandelbrotSection_empty:
  "endY \<le> startY \<Longrightarrow>
   renderMandelbrotSection pixels startY endY width height x0 x1 y0 y1 m = pixels"
  by (subst renderMandelbrotSection.simps) simp

lemma renderMandelbrotSection_step:
  "startY < endY \<Longrightarrow>
   renderMandelbrotSection pixels startY endY width height x0 x1 y0 y1 m =
   renderMandelbrotSection (renderRow pixels startY 0 width height x0 x1 y0 y1 m)
     (startY + 1) endY width height x0 x1 y0 y1 m"
  by (subst renderMandelbrotSection.simps) simp

lemma renderMandelbrotSection_append:
  "a \<le> b \<Longrightarrow> b \<le> c \<Longrightarrow>
   renderMandelbrotSection (renderMandelbrotSection pixels a b width height x0 x1 y0 y1 m)
     b c width height x0 x1 y0 y1 m =
   renderMandelbrotSection pixels a c width height x0 x1 y0 y1 m"
proof (induction pixels a b width height x0 x1 y0 y1 m rule: renderMandelbrotSection.induct)
  case (1 pixels startY endY width height xMin xMax yMin yMax maxIterations)
  show ?case
  proof (cases "startY < endY")
    case True
    with "1.prems" have "startY + 1 \<le> endY" "startY < c" by simp_all
    with "1.IH" [OF True] "1.prems" True show ?thesis
      by (simp add: renderMandelbrotSection_step)
  next
    case False
    with "1.prems" have "startY = endY" by simp
    then show ?thesis by (simp add: renderMandelbrotSection_empty)
  qed
qed

lemma NUM_THREADS_pos: "0 < NUM_THREADS hardware_concurrency"
  by (simp add: NUM_THREADS_def)

lemma renderStrips_done:
  "numThreads \<le> i \<Longrightarrow> renderStrips i numThreads sh pixels x0 x1 y0 y1 m = pixels"
  by (subst renderStrips.simps) simp

lemma renderStrips_prefix:
  assumes "0 \<le> i" and "i < n" and "0 \<le> sh" and "(n - 1) * sh \<le> SCREEN_HEIGHT"
  shows "renderStrips i n sh
           (renderMandelbrotSection pixels 0 (i * sh) SCREEN_WIDTH SCREEN_HEIGHT x0 x1 y0 y1 m)
           x0 x1 y0 y1 m =
         renderMandelbrotSection pixels 0 SCREEN_HEIGHT SCREEN_WIDTH SCREEN_HEIGHT x0 x1 y0 y1 m"
  using assms
proof (induction "nat (n - i)" arbitrary: i)
  case 0
  then show ?case by simp
next
  case (Suc k)
  let ?done = "renderMandelbrotSection pixels 0 (i * sh) SCREEN_WIDTH SCREEN_HEIGHT x0 x1 y0 y1 m"
  have lo: "0 \<le> i * sh" using Suc.prems by simp
  show ?case
  proof (cases "i = n - 1")
    case True
    have "renderMandelbrotSection ?done (i * sh) SCREEN_HEIGHT SCREEN_WIDTH SCREEN_HEIGHT
            x0 x1 y0 y1 m =
          renderMandelbrotSection pixels 0 SCREEN_HEIGHT SCREEN_WIDTH SCREEN_HEIGHT x0 x1 y0 y1 m"
      using lo Suc.prems(4) True by (intro renderMandelbrotSection_append) simp_all
    then show ?thesis
      using True Suc.prems(2)
      by (subst renderStrips.simps) (simp add: Let_def renderStrips_done)
  next
    case False
    with Suc.prems have next_lt: "i + 1 < n" by simp
    have k: "k = nat (n - (i + 1))" using Suc.hyps(2) by linarith
    have "i * sh \<le> i * sh + sh" using Suc.prems(3) by simp
    then have "renderMandelbrotSection ?done (i * sh) (i * sh + sh) SCREEN_WIDTH SCREEN_HEIGHT
            x0 x1 y0 y1 m =
          renderMandelbrotSection pixels 0 ((i + 1) * sh) SCREEN_WIDTH SCREEN_HEIGHT x0 x1 y0 y1 m"
      using lo by (simp add: renderMandelbrotSection_append algebra_simps)
    moreover have "renderStrips (i + 1) n sh
           (renderMandelbrotSection pixels 0 ((i + 1) * sh) SCREEN_WIDTH SCREEN_HEIGHT
              x0 x1 y0 y1 m) x0 x1 y0 y1 m =
         renderMandelbrotSection pixels 0 SCREEN_HEIGHT SCREEN_WIDTH SCREEN_HEIGHT x0 x1 y0 y1 m"
      using Suc.prems next_lt by (intro Suc.hyps(1) [OF k]) simp_all
    ultimately show ?thesis
      using False Suc.prems(2)
      by (subst renderStrips.simps) (simp add: Let_def)
  qed
qed

lemma sectionHeight_bounds:
  assumes "0 < n"
  shows "0 \<le> SCREEN_HEIGHT sdiv n" and "(n - 1) * (SCREEN_HEIGHT sdiv n) \<le> SCREEN_HEIGHT"
proof -
  have eq: "SCREEN_HEIGHT sdiv n = SCREEN_HEIGHT div n"
    using assms by (simp add: signed_divide_int_def SCREEN_HEIGHT_def sgn_if)
  have nonneg: "0 \<le> SCREEN_HEIGHT div n"
    using assms by (simp add: SCREEN_HEIGHT_def pos_imp_zdiv_nonneg_iff)
  then show "0 \<le> SCREEN_HEIGHT sdiv n"
    by (simp only: eq)
  have "(n - 1) * (SCREEN_HEIGHT div n) \<le> n * (SCREEN_HEIGHT div n)"
    using nonneg by (intro mult_right_mono) simp_all
  also have "\<dots> \<le> SCREEN_HEIGHT"
  proof -
    have "n * (SCREEN_HEIGHT div n) + SCREEN_HEIGHT mod n = SCREEN_HEIGHT"
      by (rule mult_div_mod_eq)
    moreover have "0 \<le> SCREEN_HEIGHT mod n"
      using assms by simp
    ultimately show ?thesis by linarith
  qed
  finally show "(n - 1) * (SCREEN_HEIGHT sdiv n) \<le> SCREEN_HEIGHT"
    by (simp add: eq)
qed

lemma renderRaster_eq_section:
  assumes "0 < numThreads"
  shows "renderRaster numThreads pixels x0 x1 y0 y1 budget =
         renderMandelbrotSection pixels 0 SCREEN_HEIGHT SCREEN_WIDTH SCREEN_HEIGHT
           x0 x1 y0 y1 budget"
proof -
  have "renderStrips 0 numThreads (SCREEN_HEIGHT sdiv numThreads)
          (renderMandelbrotSection pixels 0 (0 * (SCREEN_HEIGHT sdiv numThreads))
             SCREEN_WIDTH SCREEN_HEIGHT x0 x1 y0 y1 budget) x0 x1 y0 y1 budget =
        renderMandelbrotSection pixels 0 SCREEN_HEIGHT SCREEN_WIDTH SCREEN_HEIGHT
          x0 x1 y0 y1 budget"
    using assms sectionHeight_bounds [OF assms] by (intro renderStrips_prefix) simp_all
  then show ?thesis
    by (simp add: renderRaster_def renderMandelbrotSection_empty)
qed

lemma renderRow_length:
  "length (renderRow pixels y x width height x0 x1 y0 y1 m) = length pixels"
proof (induction pixels y x width height x0 x1 y0 y1 m rule: renderRow.induct)
  case (1 pixels y x width height x0 x1 y0 y1 m)
  show ?case
  proof (cases "x < width")
    case True
    with "1.IH" [OF True] show ?thesis
      by (subst renderRow.simps) simp
  next
    case False
    then show ?thesis by (subst renderRow.simps) simp
  qed
qed

lemma index_eq_iff:
  assumes "0 \<le> y" and "0 \<le> x" and "x < width"
  shows "k = nat (y * width + x) \<longleftrightarrow> int k div width = y \<and> int k mod width = x"
proof
  assume "k = nat (y * width + x)"
  moreover have "0 \<le> y * width + x" using assms by simp
  ultimately have "int k = y * width + x" by simp
  then show "int k div width = y \<and> int k mod width = x"
    using assms by (simp add: div_pos_pos_trivial)
next
  assume "int k div width = y \<and> int k mod width = x"
  then have "int k = y * width + x"
    using div_mult_mod_eq [of "int k" width] by simp
  then show "k = nat (y * width + x)" by simp
qed

text \<open>
  What a row pass and a strip pass leave in the array: the pixels of the rows they cover
  hold the colour of their coordinate, every other pixel is untouched.
\<close>

lemma renderRow_nth:
  assumes "0 \<le> y" and "0 \<le> x" and "0 < width" and "k < length pixels"
  shows "renderRow pixels y x width height x0 x1 y0 y1 m ! k =
         (if int k div width = y \<and> x \<le> int k mod width
          then pixelValue (int k mod width) y width height x0 x1 y0 y1 m
          else pixels ! k)"
  using assms
proof (induction pixels y x width height x0 x1 y0 y1 m rule: renderRow.induct)
  case (1 pixels y x width height x0 x1 y0 y1 m)
  show ?case
  proof (cases "x < width")
    case True
    let ?v = "pixelValue x y width height x0 x1 y0 y1 m"
    let ?p = "pixels[nat (y * width + x) := ?v]"
    have step: "renderRow pixels y x width height x0 x1 y0 y1 m =
                renderRow ?p y (x + 1) width height x0 x1 y0 y1 m"
      using True by (subst renderRow.simps) simp
    have ih: "renderRow ?p y (x + 1) width height x0 x1 y0 y1 m ! k =
              (if int k div width = y \<and> x + 1 \<le> int k mod width
               then pixelValue (int k mod width) y width height x0 x1 y0 y1 m
               else ?p ! k)"
      using "1.prems" by (intro "1.IH" [OF True]) simp_all
    have "?p ! k = (if k = nat (y * width + x) then ?v else pixels ! k)"
      using "1.prems"(4) by (cases "k = nat (y * width + x)") simp_all
    then have upd: "?p ! k =
                (if int k div width = y \<and> int k mod width = x then ?v else pixels ! k)"
      by (simp only: index_eq_iff [OF "1.prems"(1,2) True, of k])
    show ?thesis
      unfolding step ih upd by auto
  next
    case False
    then have "renderRow pixels y x width height x0 x1 y0 y1 m = pixels"
      by (subst renderRow.simps) simp
    moreover have "int k mod width < width"
      using "1.prems"(3) by simp
    ultimately show ?thesis using False by auto
  qed
qed

lemma renderMandelbrotSection_length:
  "length (renderMandelbrotSection pixels a b width height x0 x1 y0 y1 m) = length pixels"
proof (induction pixels a b width height x0 x1 y0 y1 m rule: renderMandelbrotSection.induct)
  case (1 pixels a b width height x0 x1 y0 y1 m)
  show ?case
  proof (cases "a < b")
    case True
    with "1.IH" [OF True] show ?thesis
      by (subst renderMandelbrotSection.simps) (simp add: renderRow_length)
  next
    case False
    then show ?thesis by (subst renderMandelbrotSection.simps) simp
  qed
qed

lemma renderMandelbrotSection_nth:
  assumes "0 \<le> a" and "0 < width" and "k < length pixels"
  shows "renderMandelbrotSection pixels a b width height x0 x1 y0 y1 m ! k =
         (if a \<le> int k div width \<and> int k div width < b
          then pixelValue (int k mod width) (int k div width) width height x0 x1 y0 y1 m
          else pixels ! k)"
  using assms
proof (induction pixels a b width height x0 x1 y0 y1 m rule: renderMandelbrotSection.induct)
  case (1 pixels a b width height x0 x1 y0 y1 m)
  show ?case
  proof (cases "a < b")
    case True
    let ?p = "renderRow pixels a 0 width height x0 x1 y0 y1 m"
    have step: "renderMandelbrotSection pixels a b width height x0 x1 y0 y1 m =
                renderMandelbrotSection ?p (a + 1) b width height x0 x1 y0 y1 m"
      using True by (subst renderMandelbrotSection.simps) simp
    have ih: "renderMandelbrotSection ?p (a + 1) b width height x0 x1 y0 y1 m ! k =
              (if a + 1 \<le> int k div width \<and> int k div width < b
               then pixelValue (int k mod width) (int k div width) width height x0 x1 y0 y1 m
               else ?p ! k)"
      using "1.prems" by (intro "1.IH" [OF True]) (simp_all add: renderRow_length)
    have "0 \<le> int k mod width" using "1.prems"(2) by simp
    then have row: "?p ! k =
               (if int k div width = a
                then pixelValue (int k mod width) a width height x0 x1 y0 y1 m
                else pixels ! k)"
      using renderRow_nth [OF "1.prems"(1) order_refl "1.prems"(2,3)] by simp
    show ?thesis
      unfolding step ih row using True by auto
  next
    case False
    then have "renderMandelbrotSection pixels a b width height x0 x1 y0 y1 m = pixels"
      by (subst renderMandelbrotSection.simps) simp
    then show ?thesis using False by auto
  qed
qed


text \<open>
  Strips over disjoint row ranges commute, so the raster does not depend on the order in
  which the workers run; this is what allows the model to run them one after the other.
\<close>

lemma disjoint_strips_commute:
  assumes "0 \<le> a" and "0 \<le> c" and "0 < width" and "b \<le> c \<or> d \<le> a"
  shows "renderMandelbrotSection
           (renderMandelbrotSection pixels a b width height x0 x1 y0 y1 m)
           c d width height x0 x1 y0 y1 m =
         renderMandelbrotSection
           (renderMandelbrotSection pixels c d width height x0 x1 y0 y1 m)
           a b width height x0 x1 y0 y1 m"
proof (rule nth_equalityI)
  show "length (renderMandelbrotSection
           (renderMandelbrotSection pixels a b width height x0 x1 y0 y1 m)
           c d width height x0 x1 y0 y1 m) =
        length (renderMandelbrotSection
           (renderMandelbrotSection pixels c d width height x0 x1 y0 y1 m)
           a b width height x0 x1 y0 y1 m)"
    by (simp add: renderMandelbrotSection_length)
next
  fix k
  assume "k < length (renderMandelbrotSection
           (renderMandelbrotSection pixels a b width height x0 x1 y0 y1 m)
           c d width height x0 x1 y0 y1 m)"
  then have k: "k < length pixels"
    by (simp add: renderMandelbrotSection_length)
  show "renderMandelbrotSection
           (renderMandelbrotSection pixels a b width height x0 x1 y0 y1 m)
           c d width height x0 x1 y0 y1 m ! k =
        renderMandelbrotSection
           (renderMandelbrotSection pixels c d width height x0 x1 y0 y1 m)
           a b width height x0 x1 y0 y1 m ! k"
  proof -
    let ?v = "pixelValue (int k mod width) (int k div width) width height x0 x1 y0 y1 m"
    let ?r = "int k div width"
    have ab: "renderMandelbrotSection pixels a b width height x0 x1 y0 y1 m ! k =
              (if a \<le> ?r \<and> ?r < b then ?v else pixels ! k)"
      by (rule renderMandelbrotSection_nth [OF assms(1,3) k])
    have cd: "renderMandelbrotSection pixels c d width height x0 x1 y0 y1 m ! k =
              (if c \<le> ?r \<and> ?r < d then ?v else pixels ! k)"
      by (rule renderMandelbrotSection_nth [OF assms(2,3) k])
    have e1: "renderMandelbrotSection
           (renderMandelbrotSection pixels a b width height x0 x1 y0 y1 m)
           c d width height x0 x1 y0 y1 m ! k =
          (if c \<le> ?r \<and> ?r < d then ?v
           else renderMandelbrotSection pixels a b width height x0 x1 y0 y1 m ! k)"
      using k by (intro renderMandelbrotSection_nth [OF assms(2,3)])
        (simp add: renderMandelbrotSection_length)
    have e2: "renderMandelbrotSection
           (renderMandelbrotSection pixels c d width height x0 x1 y0 y1 m)
           a b width height x0 x1 y0 y1 m ! k =
          (if a \<le> ?r \<and> ?r < b then ?v
           else renderMandelbrotSection pixels c d width height x0 x1 y0 y1 m ! k)"
      using k by (intro renderMandelbrotSection_nth [OF assms(1,3)])
        (simp add: renderMandelbrotSection_length)
    show ?thesis
      unfolding e1 e2 ab cd by simp
  qed
qed

text \<open>
  After a render pass every pixel of the 800 by 600 raster holds the colour of its own
  coordinate, whatever the array held at allocation.
\<close>

lemma raster_pixel:
  assumes "0 < numThreads" and "length pixels = nat (SCREEN_WIDTH * SCREEN_HEIGHT)"
    and "k < length pixels"
  shows "renderRaster numThreads pixels x0 x1 y0 y1 budget ! k =
         pixelValue (int k mod SCREEN_WIDTH) (int k div SCREEN_WIDTH) SCREEN_WIDTH SCREEN_HEIGHT
           x0 x1 y0 y1 budget"
proof -
  have w: "0 < SCREEN_WIDTH" by (simp add: SCREEN_WIDTH_def)
  have "int k < SCREEN_WIDTH * SCREEN_HEIGHT"
    using assms(2,3) by simp
  moreover have "SCREEN_WIDTH * (int k div SCREEN_WIDTH) \<le> int k"
  proof -
    have "SCREEN_WIDTH * (int k div SCREEN_WIDTH) + int k mod SCREEN_WIDTH = int k"
      by (rule mult_div_mod_eq)
    moreover have "0 \<le> int k mod SCREEN_WIDTH"
      using w by simp
    ultimately show ?thesis by linarith
  qed
  ultimately have "int k div SCREEN_WIDTH < SCREEN_HEIGHT"
  proof -
    assume lt: "int k < SCREEN_WIDTH * SCREEN_HEIGHT"
      and le: "SCREEN_WIDTH * (int k div SCREEN_WIDTH) \<le> int k"
    show ?thesis
    proof (rule ccontr)
      assume "\<not> int k div SCREEN_WIDTH < SCREEN_HEIGHT"
      then have "SCREEN_WIDTH * SCREEN_HEIGHT \<le> SCREEN_WIDTH * (int k div SCREEN_WIDTH)"
        using w by (intro mult_left_mono) simp_all
      with lt le show False by linarith
    qed
  qed
  moreover have "0 \<le> int k div SCREEN_WIDTH"
    using w by (simp add: pos_imp_zdiv_nonneg_iff)
  moreover have "renderMandelbrotSection pixels 0 SCREEN_HEIGHT SCREEN_WIDTH SCREEN_HEIGHT
                   x0 x1 y0 y1 budget ! k =
                 (if 0 \<le> int k div SCREEN_WIDTH \<and> int k div SCREEN_WIDTH < SCREEN_HEIGHT
                  then pixelValue (int k mod SCREEN_WIDTH) (int k div SCREEN_WIDTH)
                         SCREEN_WIDTH SCREEN_HEIGHT x0 x1 y0 y1 budget
                  else pixels ! k)"
    by (rule renderMandelbrotSection_nth [OF order_refl w assms(3)])
  ultimately show ?thesis
    by (simp only: renderRaster_eq_section [OF assms(1)] if_True simp_thms)
qed

text \<open>
  Claim C1.  For every positive number of workers, every viewport and every iteration
  budget, filling the 800 by 600 raster strip by strip (equal strips, the last one taking
  the remaining rows) gives the same raster as filling it as the single strip of the
  rows 0 to 600, whatever the array held before.
\<close>

theorem strips_equal_single_strip:
  assumes "0 < numThreads"
  shows "renderRaster numThreads pixels x0 x1 y0 y1 budget =
         renderMandelbrotSection pixels 0 SCREEN_HEIGHT SCREEN_WIDTH SCREEN_HEIGHT
           x0 x1 y0 y1 budget"
  using assms by (rule renderRaster_eq_section)

theorem strips_equal_single_strip_witness:
  "0 < NUM_THREADS 0 \<and>
   renderRaster (NUM_THREADS 0) (replicate 480000 0) (- 2.5) 1 (- 1.5) 1.5 100 =
   renderMandelbrotSection (replicate 480000 0) 0 SCREEN_HEIGHT SCREEN_WIDTH SCREEN_HEIGHT
     (- 2.5) 1 (- 1.5) 1.5 100"
proof -
  have pos: "0 < NUM_THREADS 0" by (simp add: NUM_THREADS_def)
  from pos strips_equal_single_strip [OF pos] show ?thesis by simp
qed

text \<open>
  Claim C5.  A call of \<^verbatim>\<open>renderMandelbrot\<close> with precise quality, while no redraw is
  pending and the stored bounds equal the current ones, changes nothing: the raster, the
  stored bounds and the three quality flags (and every other variable) are as before.
\<close>

theorem precise_render_skipped:
  assumes "\<not> needsUpdate s"
    and "prev_xMin s = xMin s" and "prev_xMax s = xMax s"
    and "prev_yMin s = yMin s" and "prev_yMax s = yMax s"
  shows "renderMandelbrot numThreads pixels True s = s"
  using assms by (simp add: renderMandelbrot_def)

theorem precise_render_skipped_witness:
  "\<not> needsUpdate idle_state \<and>
   prev_xMin idle_state = xMin idle_state \<and> prev_xMax idle_state = xMax idle_state \<and>
   prev_yMin idle_state = yMin idle_state \<and> prev_yMax idle_state = yMax idle_state \<and>
   renderMandelbrot 4 (replicate 480000 0) True idle_state = idle_state"
proof -
  have h: "\<not> needsUpdate idle_state" "prev_xMin idle_state = xMin idle_state"
    "prev_xMax idle_state = xMax idle_state" "prev_yMin idle_state = yMin idle_state"
    "prev_yMax idle_state = yMax idle_state"
    by (simp_all add: idle_state_def)
  from h precise_render_skipped [OF h] show ?thesis by simp
qed

section \<open>Properties of the synthesizer\<close>







lemma envelope_bounds:
  assumes "0 \<le> t" and "t \<le> 1"
  shows "0 \<le> envelope 1 t" and "envelope 1 t \<le> 1"
  using assms by (simp_all add: envelope_def Let_def field_simps)

lemma weighted_sum_bounds:
  fixes a b c d :: real
  assumes "- 1 \<le> a" "a \<le> 1" "- 1 \<le> b" "b \<le> 1" "- 1 \<le> c" "c \<le> 1" "- 1 \<le> d" "d \<le> 1"
  shows "- 1 \<le> 0.5 * a + 0.25 * b + 0.15 * c + 0.1 * d"
    and "0.5 * a + 0.25 * b + 0.15 * c + 0.1 * d \<le> 1"
  using assms by simp_all

lemma mixedSample_bounds:
  "- 1 \<le> mixedSample f s1 s2 h t" "mixedSample f s1 s2 h t \<le> 1"
  unfolding mixedSample_def by (rule weighted_sum_bounds; simp)+

lemma scaled_sample_bounds:
  assumes "- 1 \<le> m" and "m \<le> 1" and "0 \<le> e" and "e \<le> 1"
  shows "- 32767 \<le> m * e * 32767" and "m * e * 32767 \<le> (32767 :: real)"
proof -
  have "\<bar>m * e\<bar> \<le> 1 * 1"
    unfolding abs_mult using assms by (intro mult_mono) simp_all
  then show "- 32767 \<le> m * e * 32767" and "m * e * 32767 \<le> 32767"
    by (simp_all add: abs_le_iff mult.commute)
qed

lemma trunc_bounds:
  assumes "- real_of_int n \<le> d" and "d \<le> real_of_int n"
  shows "- n \<le> trunc d" and "trunc d \<le> n"
proof -
  show "- n \<le> trunc d"
    using assms(1) by (simp add: trunc_def le_floor_iff le_ceiling_iff)
  show "trunc d \<le> n"
    using assms(2) by (simp add: trunc_def floor_le_iff ceiling_le_iff)
qed


lemma double_to_Sint16_sample:
  assumes "- 32767 \<le> d" and "d \<le> 32767"
  shows "\<exists>v. double_to_Sint16 d = Some v \<and> - 32767 \<le> sint v \<and> sint v \<le> 32767"
proof -
  have t: "- 32767 \<le> trunc d" "trunc d \<le> 32767"
    using trunc_bounds [of 32767 d] assms by simp_all
  then have "sint (word_of_int (trunc d) :: 16 word) = trunc d"
    by (simp add: sint_sbintrunc' signed_take_bit_int_eq_self)
  with t show ?thesis
    by (simp add: double_to_Sint16_def Let_def)
qed

lemma time_bounds:
  assumes "0 \<le> i" and "i < sampleCount" and "sampleCount \<le> SAMPLE_RATE"
  shows "0 \<le> real_of_int i / real_of_int SAMPLE_RATE"
    and "real_of_int i / real_of_int SAMPLE_RATE \<le> 1"
  using assms by (simp_all add: SAMPLE_RATE_def)

lemma soundLoop_defined:
  assumes "0 \<le> i" and "sampleCount \<le> SAMPLE_RATE"
    and "\<forall>s \<in> set buffer. - 32767 \<le> sint s \<and> sint s \<le> 32767"
  shows "\<exists>b. soundLoop i sampleCount 1 f s1 s2 h buffer = Some b \<and>
             length b = length buffer \<and>
             (\<forall>s \<in> set b. - 32767 \<le> sint s \<and> sint s \<le> 32767)"
  using assms
proof (induction i sampleCount "1::real" f s1 s2 h buffer rule: soundLoop.induct)
  case (1 i sampleCount f s1 s2 h buffer)
  show ?case
  proof (cases "i < sampleCount")
    case True
    let ?time = "real_of_int i / real_of_int SAMPLE_RATE"
    let ?env = "envelope 1 ?time"
    let ?sample = "mixedSample f s1 s2 h ?time * ?env"
    have t: "0 \<le> ?time" "?time \<le> 1"
      using time_bounds [OF "1.prems"(1) True "1.prems"(2)] .
    have "- 32767 \<le> ?sample * 32767"
      by (rule scaled_sample_bounds(1) [OF mixedSample_bounds envelope_bounds [OF t]])
    moreover have "?sample * 32767 \<le> 32767"
      by (rule scaled_sample_bounds(2) [OF mixedSample_bounds envelope_bounds [OF t]])
    ultimately have "\<exists>v. double_to_Sint16 (?sample * 32767) = Some v \<and>
                       - 32767 \<le> sint v \<and> sint v \<le> 32767"
      by (rule double_to_Sint16_sample)
    then obtain v where v: "double_to_Sint16 (?sample * 32767) = Some v"
      and vr: "- 32767 \<le> sint v \<and> sint v \<le> 32767"
      using double_to_Sint16_sample by blast
    have inv: "\<forall>s \<in> set (buffer[nat i := v]). - 32767 \<le> sint s \<and> sint s \<le> 32767"
      using "1.prems"(3) vr set_update_subset_insert [of buffer "nat i" v] by blast
    have "\<exists>b. soundLoop (i + 1) sampleCount 1 f s1 s2 h (buffer[nat i := v]) = Some b \<and>
             length b = length (buffer[nat i := v]) \<and>
             (\<forall>s \<in> set b. - 32767 \<le> sint s \<and> sint s \<le> 32767)"
      using "1.prems" inv by (intro "1.hyps" [OF True refl refl refl v]) simp_all
    moreover have "soundLoop i sampleCount 1 f s1 s2 h buffer =
                   soundLoop (i + 1) sampleCount 1 f s1 s2 h (buffer[nat i := v])"
      using True v by (subst soundLoop.simps) (simp add: Let_def)
    ultimately show ?thesis by simp
  next
    case False
    then show ?thesis
      using "1.prems"(3) by (subst soundLoop.simps) simp
  qed
qed

text \<open>
  Claim C7.  For every iteration count and coordinate (and a positive budget, as
  \<^verbatim>\<open>MAX_ITERATIONS\<close> always is) the synthesizer returns a buffer: no sample overflows the
  conversion to \<^verbatim>\<open>Sint16\<close>.  The buffer has exactly \<open>SAMPLE_RATE * 1.0 = 44100\<close> samples and
  every sample lies in \<open>[-32768, 32767]\<close>.
\<close>

theorem sound_buffer_length_and_range:
  assumes "0 < budget"
  shows "\<exists>buffer. createMandelbrotSound budget iterations creal cimag = Some buffer \<and>
           real (length buffer) = real_of_int SAMPLE_RATE * 1.0 \<and>
           length buffer = 44100 \<and>
           (\<forall>s \<in> set buffer. - 32768 \<le> sint s \<and> sint s \<le> 32767)"
proof -
  have c: "double_to_int (real_of_int SAMPLE_RATE * 1.0) = Some 44100"
    by (simp add: double_to_int_def trunc_def SAMPLE_RATE_def)
  let ?f = "primaryFreq budget iterations"
  have "\<exists>b. soundLoop 0 44100 1 ?f (?f * (1.0 + creal * 0.1)) (?f * (1.0 + cimag * 0.1))
               (?f * 1.5) (replicate (nat 44100) 0) = Some b \<and>
             length b = length (replicate (nat 44100) (0 :: 16 word)) \<and>
             (\<forall>s \<in> set b. - 32767 \<le> sint s \<and> sint s \<le> 32767)"
    by (rule soundLoop_defined) (simp_all add: SAMPLE_RATE_def)
  then obtain b where
    b: "soundLoop 0 44100 1 ?f (?f * (1.0 + creal * 0.1)) (?f * (1.0 + cimag * 0.1))
          (?f * 1.5) (replicate (nat 44100) 0) = Some b"
    and len: "length b = 44100"
    and rng: "\<forall>s \<in> set b. - 32767 \<le> sint s \<and> sint s \<le> 32767"
    by auto
  have "createMandelbrotSound budget iterations creal cimag = Some b"
    using b c by (simp add: createMandelbrotSound_def Let_def)
  moreover have "\<forall>s \<in> set b. - 32768 \<le> sint s \<and> sint s \<le> 32767"
    using rng by auto
  ultimately show ?thesis
    using len by (simp add: SAMPLE_RATE_def)
qed

theorem sound_buffer_length_and_range_witness:
  "(0::int) < 100 \<and> createMandelbrotSound 100 100 0 0 \<noteq> None \<and>
   length (the (createMandelbrotSound 100 100 0 0)) = 44100"
  using sound_buffer_length_and_range [of 100 100 0 0] by auto

section \<open>Properties of the wheel event\<close>

lemma idle_state_simps:
  "xMin idle_state = - (5 / 2)" "xMax idle_state = 1"
  "yMin idle_state = - (3 / 2)" "yMax idle_state = 3 / 2"
  by (simp_all add: idle_state_def)

lemma zoom_once:
  "xMin (zoomViewport 400 300 1 idle_state) = - (1210342399855821 / 562949953421312)"
  "xMax (zoomViewport 400 300 1 idle_state) = 2927339757790823 / 4503599627370496"
  "yMin (zoomViewport 400 300 1 idle_state) = - (1351079888211149 / 1125899906842624)"
  "yMax (zoomViewport 400 300 1 idle_state) = 1351079888211149 / 1125899906842624"
  by (simp_all add: zoomViewport_def Let_def idle_state_simps SCREEN_WIDTH_def SCREEN_HEIGHT_def
      double_ops fl_values)

lemma width_once:
  "dsub (xMax (zoomViewport 400 300 1 idle_state)) (xMin (zoomViewport 400 300 1 idle_state)) =
   788129934789837 / 281474976710656"
  by (simp add: zoom_once double_ops fl_values)

text \<open>The view after one and after two wheel-ups with the cursor at column 0.\<close>

lemma zoom_left_once:
  "xMin (zoomViewport 0 300 1 idle_state) = - (2195504818343117 / 562949953421312)"
  "xMax (zoomViewport 0 300 1 idle_state) = - (4953959590107545 / 4503599627370496)"
  by (simp_all add: zoomViewport_def Let_def idle_state_simps SCREEN_WIDTH_def SCREEN_HEIGHT_def
      double_ops fl_values)

lemma zoom_left_twice:
  "xMin (zoomViewport 0 300 1 (zoomViewport 0 300 1 idle_state)) =
     - (5652017532349973 / 1125899906842624)"
  "xMax (zoomViewport 0 300 1 (zoomViewport 0 300 1 idle_state)) =
     - (3130001741022495 / 1125899906842624)"
  by (simp_all add: zoomViewport_def [of 0 300 1 "zoomViewport 0 300 1 idle_state"] Let_def
      zoom_left_once SCREEN_WIDTH_def double_ops fl_values)

lemma width_left_twice:
  "dsub (xMax (zoomViewport 0 300 1 (zoomViewport 0 300 1 idle_state)))
        (xMin (zoomViewport 0 300 1 (zoomViewport 0 300 1 idle_state))) =
   1261007895663739 / 562949953421312"
  by (simp add: zoom_left_twice double_ops fl_values)

text \<open>The half width that is subtracted from and added to the centre is never negative.\<close>

lemma zoom_half_nonneg:
  assumes "lo \<le> hi" and "0 \<le> k"
  shows "0 \<le> ddiv (dmul (dsub hi lo) k) 2"
proof -
  have "0 \<le> dsub hi lo" using assms(1) by (simp add: dsub_def fl_nonneg)
  then have "0 \<le> dmul (dsub hi lo) k" using assms(2) by (simp add: dmul_def fl_nonneg)
  then show ?thesis by (simp add: ddiv_def fl_nonneg)
qed

lemma dsub_le_dadd: "0 \<le> h \<Longrightarrow> dsub c h \<le> dadd c h"
  unfolding dsub_def dadd_def by (rule fl_mono) simp

lemma zoomFactor_nonneg: "0 \<le> (if wheel_y > 0 then fl 0.8 else fl 1.25)"
  by (simp add: fl_nonneg)

lemma zoomViewport_weak_order:
  assumes "xMin s \<le> xMax s" and "yMin s \<le> yMax s"
  shows "xMin (zoomViewport mouseX mouseY wheel_y s) \<le> xMax (zoomViewport mouseX mouseY wheel_y s)"
    and "yMin (zoomViewport mouseX mouseY wheel_y s) \<le> yMax (zoomViewport mouseX mouseY wheel_y s)"
proof -
  let ?k = "if wheel_y > 0 then fl 0.8 else fl 1.25"
  have k: "0 \<le> ?k" by (rule zoomFactor_nonneg)
  show "xMin (zoomViewport mouseX mouseY wheel_y s) \<le> xMax (zoomViewport mouseX mouseY wheel_y s)"
    using dsub_le_dadd [OF zoom_half_nonneg [OF assms(1) k]]
    by (simp add: zoomViewport_def Let_def)
  show "yMin (zoomViewport mouseX mouseY wheel_y s) \<le> yMax (zoomViewport mouseX mouseY wheel_y s)"
    using dsub_le_dadd [OF zoom_half_nonneg [OF assms(2) k]]
    by (simp add: zoomViewport_def Let_def)
qed

lemma renderMandelbrot_bounds:
  "xMin (renderMandelbrot n pixels q s) = xMin s" "xMax (renderMandelbrot n pixels q s) = xMax s"
  "yMin (renderMandelbrot n pixels q s) = yMin s" "yMax (renderMandelbrot n pixels q s) = yMax s"
  by (simp_all add: renderMandelbrot_def Let_def)

lemma onMouseWheel_bounds:
  "xMin (onMouseWheel n pixels r mouseX mouseY wheel_y s) = xMin (zoomViewport mouseX mouseY wheel_y s)"
  "xMax (onMouseWheel n pixels r mouseX mouseY wheel_y s) = xMax (zoomViewport mouseX mouseY wheel_y s)"
  "yMin (onMouseWheel n pixels r mouseX mouseY wheel_y s) = yMin (zoomViewport mouseX mouseY wheel_y s)"
  "yMax (onMouseWheel n pixels r mouseX mouseY wheel_y s) = yMax (zoomViewport mouseX mouseY wheel_y s)"
  by (simp_all add: onMouseWheel_def updateIterations_def renderMandelbrot_bounds)

text \<open>
  No operation of the zoom overflows while the bounds stay below \<open>2\<^sup>9\<^sup>0\<^sup>0\<close> in magnitude:
  the new bounds are below \<open>2\<^sup>9\<^sup>3\<^sup>4\<close>, far from the largest binary64 number.
\<close>

lemma zoom_axis_bound:
  assumes "\<bar>lo\<bar> \<le> 2 ^ 900" and "\<bar>hi\<bar> \<le> 2 ^ 900" and "\<bar>real_of_int v\<bar> \<le> 2 ^ 31"
    and "1 \<le> extent" and "fl extent = extent" and "\<bar>k\<bar> \<le> 2 ^ 1"
  shows "\<bar>dsub (mapValue_double (real_of_int v) 0 extent lo hi) (ddiv (dmul (dsub hi lo) k) 2)\<bar>
           \<le> 2 ^ 934"
    and "\<bar>dadd (mapValue_double (real_of_int v) 0 extent lo hi) (ddiv (dmul (dsub hi lo) k) 2)\<bar>
           \<le> 2 ^ 934"
proof -
  have a1: "\<bar>dsub (real_of_int v) 0\<bar> \<le> 2 ^ 31"
    unfolding dsub_def using assms(3) by (intro abs_fl_le) simp
  have a2: "dsub extent 0 = extent" by (simp add: dsub_def assms(5))
  have a3: "\<bar>ddiv (dsub (real_of_int v) 0) (dsub extent 0)\<bar> \<le> 2 ^ 31"
    unfolding a2 using a1 assms(4) by (rule ddiv_bound)
  have a4: "\<bar>dsub hi lo\<bar> \<le> 2 ^ 901"
    using dsub_bound [OF assms(2,1)] by simp
  have a5: "\<bar>dmul (dsub hi lo) (ddiv (dsub (real_of_int v) 0) (dsub extent 0))\<bar> \<le> 2 ^ 932"
    using dmul_bound [OF a4 a3] by simp
  have c: "\<bar>mapValue_double (real_of_int v) 0 extent lo hi\<bar> \<le> 2 ^ 933"
    unfolding mapValue_double_def
    using dadd_bound [OF pow2_le [OF _ assms(1), of 932] a5] by simp
  have nw: "\<bar>dmul (dsub hi lo) k\<bar> \<le> 2 ^ 902"
    using dmul_bound [OF a4 assms(6)] by simp
  have h: "\<bar>ddiv (dmul (dsub hi lo) k) 2\<bar> \<le> 2 ^ 933"
    using ddiv_bound [OF pow2_le [OF _ nw, of 933], of 2] by simp
  show "\<bar>dsub (mapValue_double (real_of_int v) 0 extent lo hi) (ddiv (dmul (dsub hi lo) k) 2)\<bar>
           \<le> 2 ^ 934"
    using dsub_bound [OF c h] by simp
  show "\<bar>dadd (mapValue_double (real_of_int v) 0 extent lo hi) (ddiv (dmul (dsub hi lo) k) 2)\<bar>
           \<le> 2 ^ 934"
    using dadd_bound [OF c h] by simp
qed

lemma zoomFactor_bound: "\<bar>if wheel_y > 0 then fl 0.8 else fl 1.25\<bar> \<le> 2 ^ 1"
proof -
  have "\<bar>fl 0.8\<bar> \<le> 2 ^ 1" by (rule abs_fl_le) simp
  moreover have "\<bar>fl 1.25\<bar> \<le> 2 ^ 1" by (rule abs_fl_le) simp
  ultimately show ?thesis by simp
qed

lemma zoomViewport_magnitude:
  assumes "\<bar>xMin s\<bar> \<le> 2 ^ 900" and "\<bar>xMax s\<bar> \<le> 2 ^ 900"
    and "\<bar>yMin s\<bar> \<le> 2 ^ 900" and "\<bar>yMax s\<bar> \<le> 2 ^ 900"
    and "\<bar>mouseX\<bar> \<le> 2 ^ 31" and "\<bar>mouseY\<bar> \<le> 2 ^ 31"
  shows "\<bar>xMin (zoomViewport mouseX mouseY wheel_y s)\<bar> \<le> 2 ^ 934"
    and "\<bar>xMax (zoomViewport mouseX mouseY wheel_y s)\<bar> \<le> 2 ^ 934"
    and "\<bar>yMin (zoomViewport mouseX mouseY wheel_y s)\<bar> \<le> 2 ^ 934"
    and "\<bar>yMax (zoomViewport mouseX mouseY wheel_y s)\<bar> \<le> 2 ^ 934"
proof -
  have mx: "\<bar>real_of_int mouseX\<bar> \<le> 2 ^ 31"
    using assms(5) by (metis of_int_abs of_int_le_iff of_int_numeral of_int_power)
  have my: "\<bar>real_of_int mouseY\<bar> \<le> 2 ^ 31"
    using assms(6) by (metis of_int_abs of_int_le_iff of_int_numeral of_int_power)
  have w: "(1::real) \<le> real_of_int SCREEN_WIDTH" "fl (real_of_int SCREEN_WIDTH) = real_of_int SCREEN_WIDTH"
    by (simp_all add: SCREEN_WIDTH_def fl_values)
  have h: "(1::real) \<le> real_of_int SCREEN_HEIGHT" "fl (real_of_int SCREEN_HEIGHT) = real_of_int SCREEN_HEIGHT"
    by (simp_all add: SCREEN_HEIGHT_def fl_values)
  note x = zoom_axis_bound [OF assms(1,2) mx w zoomFactor_bound [of wheel_y]]
  note y = zoom_axis_bound [OF assms(3,4) my h zoomFactor_bound [of wheel_y]]
  show "\<bar>xMin (zoomViewport mouseX mouseY wheel_y s)\<bar> \<le> 2 ^ 934"
    using x(1) by (simp add: zoomViewport_def Let_def)
  show "\<bar>xMax (zoomViewport mouseX mouseY wheel_y s)\<bar> \<le> 2 ^ 934"
    using x(2) by (simp add: zoomViewport_def Let_def)
  show "\<bar>yMin (zoomViewport mouseX mouseY wheel_y s)\<bar> \<le> 2 ^ 934"
    using y(1) by (simp add: zoomViewport_def Let_def)
  show "\<bar>yMax (zoomViewport mouseX mouseY wheel_y s)\<bar> \<le> 2 ^ 934"
    using y(2) by (simp add: zoomViewport_def Let_def)
qed

text \<open>
  The strict order on one axis.  With bounds of magnitude at most \<open>2\<^sup>i\<close>, a width of at
  least \<open>2\<^sup>j\<close>, a cursor fraction \<open>t\<close> in \<open>[0, 1]\<close> and a factor \<open>k\<close> in \<open>[1/2, 2]\<close>, the
  half width is at least \<open>2\<^sup>j\<^sup>-\<^sup>2\<close> and the centre at most \<open>2\<^sup>i\<^sup>+\<^sup>2\<close> in magnitude, so the two
  new bounds are more than one unit in the last place apart as soon as \<open>i \<le> j + 47\<close>.
\<close>

lemma zoom_axis_strict:
  assumes lo: "\<bar>lo\<bar> \<le> 2 powi i" and hi: "\<bar>hi\<bar> \<le> 2 powi i"
    and w: "2 powi j \<le> hi - lo" and ij: "i \<le> j + 47" and j: "- 1000 \<le> j"
    and t: "0 \<le> t" "t \<le> 1" and k: "1 / 2 \<le> k" "k \<le> 2"
  shows "dsub (dadd lo (dmul (dsub hi lo) t)) (ddiv (dmul (dsub hi lo) k) 2)
         < dadd (dadd lo (dmul (dsub hi lo) t)) (ddiv (dmul (dsub hi lo) k) 2)"
proof -
  define A where "A = (2::real) powi j"
  define B where "B = (2::real) powi i"
  have A: "0 < A" and B: "0 < B" by (simp_all add: A_def B_def)
  have i1: "(2::real) powi (i + 1) = 2 * B" by (simp add: power_int_add B_def)
  have i2: "(2::real) powi (i + 2) = 4 * B" by (simp add: power_int_add B_def)
  have i3: "(2::real) powi (i + 3) = 8 * B" by (simp add: power_int_add B_def)
  have j1: "(2::real) powi (j - 1) = A / 2" by (simp add: power_int_diff A_def)
  have j2: "(2::real) powi (j - 2) = A / 4" by (simp add: power_int_diff A_def)
  have wd: "hi - lo \<le> 2 * B" using lo hi by (simp add: B_def abs_le_iff)
  then have "(2::real) powi j \<le> 2 powi (i + 1)" using w i1 by linarith
  then have ji: "j \<le> i + 1" by (rule powi_le_imp_le)
  have r: "fl A = A" "fl (A / 2) = A / 2" "fl (A / 4) = A / 4"
    "fl (2 * B) = 2 * B" "fl (4 * B) = 4 * B"
    using fl_pow2 [of j] fl_pow2 [of "j - 1"] fl_pow2 [of "j - 2"]
      fl_pow2 [of "i + 1"] fl_pow2 [of "i + 2"] j ji
    by (simp_all only: i1 i2 j1 j2 A_def [symmetric])
  have r0: "fl 0 = 0" by simp
  have rm: "fl (- (4 * B)) = - (4 * B)" by (simp add: fl_minus r)
  define W where "W = dsub hi lo"
  have W: "A \<le> W" "W \<le> 2 * B"
    unfolding W_def dsub_def using w wd r(1,4)
    by (intro fl_bracket [where a = A and b = "2 * B"]; simp add: A_def)+
  have W0: "0 \<le> W" using W(1) A by linarith
  define P where "P = dmul W t"
  have "W * t \<le> W" using t(2) W0 by (rule mult_left_le)
  then have "W * t \<le> 2 * B" using W(2) by linarith
  moreover have "0 \<le> W * t" using W0 t(1) by (rule mult_nonneg_nonneg)
  ultimately have P: "0 \<le> P" "P \<le> 2 * B"
    unfolding P_def dmul_def using r0 r(4)
    by (intro fl_bracket [where a = 0 and b = "2 * B"]; simp)+
  define C where "C = dadd lo P"
  have "- (4 * B) \<le> lo + P" "lo + P \<le> 4 * B"
    using lo P B by (simp_all add: B_def abs_le_iff)
  then have C: "- (4 * B) \<le> C" "C \<le> 4 * B"
    unfolding C_def dadd_def using rm r(5)
    by (intro fl_bracket [where a = "- (4 * B)" and b = "4 * B"]; simp)+
  define N where "N = dmul W k"
  have "W * (1 / 2) \<le> W * k" using k(1) W0 by (rule mult_left_mono)
  then have n1: "A / 2 \<le> W * k" using W(1) by simp
  have "W * k \<le> W * 2" using k(2) W0 by (rule mult_left_mono)
  then have n2: "W * k \<le> 4 * B" using W(2) by simp
  have N: "A / 2 \<le> N" "N \<le> 4 * B"
    unfolding N_def dmul_def using n1 n2 r(2,5)
    by (intro fl_bracket [where a = "A / 2" and b = "4 * B"]; simp)+
  define H where "H = ddiv N 2"
  have "A / 4 \<le> N / 2" "N / 2 \<le> 2 * B" using N by simp_all
  then have H: "A / 4 \<le> H" "H \<le> 2 * B"
    unfolding H_def ddiv_def using r(3,4)
    by (intro fl_bracket [where a = "A / 4" and b = "2 * B"]; simp)+
  have "i + 3 - 52 < j - 1" using ij by simp
  then have "(2::real) powi (i + 3 - 52) < 2 powi (j - 1)"
    by (intro power_int_strict_increasing) simp_all
  then have gap: "2 powi (i + 3 - 52) < (C + H) - (C - H)"
    using H(1) j1 by simp
  have m1: "\<bar>C - H\<bar> \<le> 2 powi (i + 3)" and m2: "\<bar>C + H\<bar> \<le> 2 powi (i + 3)"
    unfolding i3 using C H A B by (simp_all add: abs_le_iff)
  have e: "- 1022 \<le> i + 3" using j ji by simp
  have "fl (C - H) < fl (C + H)" using m1 m2 e gap by (rule fl_strict)
  then show ?thesis
    unfolding dsub_def dadd_def C_def [symmetric, unfolded dadd_def]
    by (simp add: C_def H_def N_def P_def W_def dadd_def dsub_def)
qed


lemma cursor_fraction:
  assumes "0 \<le> m" and "m \<le> n" and "n < 2 ^ 53"
  shows "0 \<le> ddiv (dsub (real_of_int m) 0) (dsub (real_of_int n) 0)"
    and "ddiv (dsub (real_of_int m) 0) (dsub (real_of_int n) 0) \<le> 1"
proof -
  have m: "dsub (real_of_int m) 0 = real_of_int m"
    using assms by (simp add: dsub_def fl_of_int)
  have n: "dsub (real_of_int n) 0 = real_of_int n"
    using assms by (simp add: dsub_def fl_of_int)
  have q: "0 \<le> real_of_int m / real_of_int n" "real_of_int m / real_of_int n \<le> 1"
    using assms by (auto simp add: divide_le_eq_1)
  have r: "fl 0 = 0" "fl 1 = 1" using fl_of_int [of 1] by simp_all
  show "0 \<le> ddiv (dsub (real_of_int m) 0) (dsub (real_of_int n) 0)"
    unfolding m n ddiv_def using q r by (rule fl_bracket(1))
  show "ddiv (dsub (real_of_int m) 0) (dsub (real_of_int n) 0) \<le> 1"
    unfolding m n ddiv_def using q r by (rule fl_bracket(2))
qed

lemma zoomFactor_bracket:
  "1 / 2 \<le> (if wheel_y > 0 then fl 0.8 else fl 1.25)"
  "(if wheel_y > 0 then fl 0.8 else fl 1.25) \<le> 2"
proof -
  have r: "fl (1 / 2) = 1 / 2" "fl 2 = 2"
    using fl_repr [of 1 "- 1"] fl_of_int [of 2] by simp_all
  have a: "1 / 2 \<le> fl 0.8" "fl 0.8 \<le> 2"
    by (rule fl_bracket [where a = "1 / 2" and b = 2]; simp add: r)+
  have b: "1 / 2 \<le> fl 1.25" "fl 1.25 \<le> 2"
    by (rule fl_bracket [where a = "1 / 2" and b = 2]; simp add: r)+
  show "1 / 2 \<le> (if wheel_y > 0 then fl 0.8 else fl 1.25)" using a(1) b(1) by simp
  show "(if wheel_y > 0 then fl 0.8 else fl 1.25) \<le> 2" using a(2) b(2) by simp
qed

lemma zoomViewport_strict_x:
  assumes "0 \<le> mouseX" and "mouseX < SCREEN_WIDTH"
    and "\<bar>xMin s\<bar> \<le> 2 powi i" and "\<bar>xMax s\<bar> \<le> 2 powi i"
    and "2 powi (i - 47) \<le> xMax s - xMin s" and "- 953 \<le> i"
  shows "xMin (zoomViewport mouseX mouseY wheel_y s) < xMax (zoomViewport mouseX mouseY wheel_y s)"
proof -
  have c: "0 \<le> mouseX" "mouseX \<le> SCREEN_WIDTH" "SCREEN_WIDTH < 2 ^ 53"
    using assms(1,2) by (simp_all add: SCREEN_WIDTH_def)
  have "i \<le> (i - 47) + 47" "- 1000 \<le> i - 47" using assms(6) by simp_all
  from zoom_axis_strict [OF assms(3,4,5) this cursor_fraction [OF c] zoomFactor_bracket [of wheel_y]]
  show ?thesis by (simp add: zoomViewport_def Let_def mapValue_double_def)
qed

lemma zoomViewport_strict_y:
  assumes "0 \<le> mouseY" and "mouseY < SCREEN_HEIGHT"
    and "\<bar>yMin s\<bar> \<le> 2 powi i" and "\<bar>yMax s\<bar> \<le> 2 powi i"
    and "2 powi (i - 47) \<le> yMax s - yMin s" and "- 953 \<le> i"
  shows "yMin (zoomViewport mouseX mouseY wheel_y s) < yMax (zoomViewport mouseX mouseY wheel_y s)"
proof -
  have c: "0 \<le> mouseY" "mouseY \<le> SCREEN_HEIGHT" "SCREEN_HEIGHT < 2 ^ 53"
    using assms(1,2) by (simp_all add: SCREEN_HEIGHT_def)
  have "i \<le> (i - 47) + 47" "- 1000 \<le> i - 47" using assms(6) by simp_all
  from zoom_axis_strict [OF assms(3,4,5) this cursor_fraction [OF c] zoomFactor_bracket [of wheel_y]]
  show ?thesis by (simp add: zoomViewport_def Let_def mapValue_double_def)
qed

text \<open>
  Claim C8 as stated (a zoom preserves \<open>xMin < xMax\<close> and \<open>yMin < yMax\<close>) fails: the
  viewport \<open>one_ulp_state\<close> satisfies both inequalities, and a wheel-up with the cursor at
  column 0 leaves \<open>xMin = xMax = 1.5\<close>.  The centre is \<open>1.5\<close>, the new width
  \<open>0.8 * 2\<^sup>-\<^sup>5\<^sup>2\<close>, and \<open>1.5 - 0.4 * 2\<^sup>-\<^sup>5\<^sup>2\<close> and \<open>1.5 + 0.4 * 2\<^sup>-\<^sup>5\<^sup>2\<close> both round to \<open>1.5\<close>.
\<close>

theorem zoom_collapse_counterexample:
  "xMin one_ulp_state < xMax one_ulp_state \<and> yMin one_ulp_state < yMax one_ulp_state \<and>
   xMin (zoomViewport 0 300 1 one_ulp_state) = 3 / 2 \<and>
   xMax (zoomViewport 0 300 1 one_ulp_state) = 3 / 2 \<and>
   xMin (onMouseWheel 4 [] (- 2147483648) 0 300 1 one_ulp_state) =
     xMax (onMouseWheel 4 [] (- 2147483648) 0 300 1 one_ulp_state)"
proof -
  have s: "xMin one_ulp_state = 3 / 2" "xMax one_ulp_state = 6755399441055745 / 4503599627370496"
    "yMin one_ulp_state = - (3 / 2)" "yMax one_ulp_state = 3 / 2"
    by (simp_all add: one_ulp_state_def idle_state_def)
  have lo: "xMin (zoomViewport 0 300 1 one_ulp_state) = 3 / 2"
    by (simp add: zoomViewport_def Let_def s SCREEN_WIDTH_def double_ops fl_values)
  have hi: "xMax (zoomViewport 0 300 1 one_ulp_state) = 3 / 2"
    by (simp add: zoomViewport_def Let_def s SCREEN_WIDTH_def double_ops fl_values)
  show ?thesis by (simp add: onMouseWheel_bounds lo hi) (simp add: s)
qed

text \<open>
  Claim C8, amended.  Every zoom operation (wheel event with factor 0.8 or 1.25, recentring
  the viewport on the mapped cursor coordinate) preserves \<open>xMin \<le> xMax\<close> and
  \<open>yMin \<le> yMax\<close>, for bounds of magnitude at most \<open>2\<^sup>9\<^sup>0\<^sup>0\<close> (where nothing overflows): the
  bounds never change their order.  It preserves \<open>xMin < xMax\<close> when the cursor is inside
  the window and the width is at least \<open>2\<^sup>-\<^sup>4\<^sup>7\<close> times a power of two \<open>2\<^sup>i\<close>, \<open>i \<ge> -953\<close>,
  that bounds \<open>|xMin|\<close> and \<open>|xMax|\<close>, and likewise \<open>yMin < yMax\<close>; on a narrower viewport
  the two bounds can become equal.  This holds for the new viewport and for the state the
  whole wheel branch leaves.
\<close>

theorem zoom_preserves_order:
  assumes "xMin s \<le> xMax s" and "yMin s \<le> yMax s"
    and "\<bar>xMin s\<bar> \<le> 2 ^ 900" and "\<bar>xMax s\<bar> \<le> 2 ^ 900"
    and "\<bar>yMin s\<bar> \<le> 2 ^ 900" and "\<bar>yMax s\<bar> \<le> 2 ^ 900"
  shows "xMin (zoomViewport mouseX mouseY wheel_y s) \<le> xMax (zoomViewport mouseX mouseY wheel_y s) \<and>
         yMin (zoomViewport mouseX mouseY wheel_y s) \<le> yMax (zoomViewport mouseX mouseY wheel_y s) \<and>
         xMin (onMouseWheel n pixels r mouseX mouseY wheel_y s)
           \<le> xMax (onMouseWheel n pixels r mouseX mouseY wheel_y s) \<and>
         yMin (onMouseWheel n pixels r mouseX mouseY wheel_y s)
           \<le> yMax (onMouseWheel n pixels r mouseX mouseY wheel_y s) \<and>
         (0 \<le> mouseX \<and> mouseX < SCREEN_WIDTH \<and> - 953 \<le> i \<and>
          \<bar>xMin s\<bar> \<le> 2 powi i \<and> \<bar>xMax s\<bar> \<le> 2 powi i \<and> 2 powi (i - 47) \<le> xMax s - xMin s \<longrightarrow>
            xMin (zoomViewport mouseX mouseY wheel_y s) < xMax (zoomViewport mouseX mouseY wheel_y s) \<and>
            xMin (onMouseWheel n pixels r mouseX mouseY wheel_y s)
              < xMax (onMouseWheel n pixels r mouseX mouseY wheel_y s)) \<and>
         (0 \<le> mouseY \<and> mouseY < SCREEN_HEIGHT \<and> - 953 \<le> k \<and>
          \<bar>yMin s\<bar> \<le> 2 powi k \<and> \<bar>yMax s\<bar> \<le> 2 powi k \<and> 2 powi (k - 47) \<le> yMax s - yMin s \<longrightarrow>
            yMin (zoomViewport mouseX mouseY wheel_y s) < yMax (zoomViewport mouseX mouseY wheel_y s) \<and>
            yMin (onMouseWheel n pixels r mouseX mouseY wheel_y s)
              < yMax (onMouseWheel n pixels r mouseX mouseY wheel_y s))"
  using zoomViewport_weak_order [OF assms(1,2), of mouseX mouseY wheel_y]
    zoomViewport_strict_x [of mouseX s i mouseY wheel_y]
    zoomViewport_strict_y [of mouseY s k mouseX wheel_y]
  by (simp add: onMouseWheel_bounds)

theorem zoom_preserves_order_witness:
  "xMin idle_state \<le> xMax idle_state \<and> yMin idle_state \<le> yMax idle_state \<and>
   \<bar>xMin idle_state\<bar> \<le> 2 ^ 900 \<and> \<bar>xMax idle_state\<bar> \<le> 2 ^ 900 \<and>
   \<bar>yMin idle_state\<bar> \<le> 2 ^ 900 \<and> \<bar>yMax idle_state\<bar> \<le> 2 ^ 900 \<and>
   (0::int) \<le> 400 \<and> 400 < SCREEN_WIDTH \<and> (- 953::int) \<le> 2 \<and>
   \<bar>xMin idle_state\<bar> \<le> 2 powi 2 \<and> \<bar>xMax idle_state\<bar> \<le> 2 powi 2 \<and>
   2 powi (2 - 47) \<le> xMax idle_state - xMin idle_state \<and>
   (0::int) \<le> 300 \<and> 300 < SCREEN_HEIGHT \<and> (- 953::int) \<le> 1 \<and>
   \<bar>yMin idle_state\<bar> \<le> 2 powi 1 \<and> \<bar>yMax idle_state\<bar> \<le> 2 powi 1 \<and>
   2 powi (1 - 47) \<le> yMax idle_state - yMin idle_state \<and>
   xMin (zoomViewport 400 300 1 idle_state) < xMax (zoomViewport 400 300 1 idle_state) \<and>
   yMin (zoomViewport 400 300 1 idle_state) < yMax (zoomViewport 400 300 1 idle_state) \<and>
   xMin (onMouseWheel 4 [] (- 2147483648) 400 300 1 idle_state)
     < xMax (onMouseWheel 4 [] (- 2147483648) 400 300 1 idle_state) \<and>
   yMin (onMouseWheel 4 [] (- 2147483648) 400 300 1 idle_state)
     < yMax (onMouseWheel 4 [] (- 2147483648) 400 300 1 idle_state)"
proof -
  have h: "xMin idle_state \<le> xMax idle_state" "yMin idle_state \<le> yMax idle_state"
    "\<bar>xMin idle_state\<bar> \<le> 2 ^ 900" "\<bar>xMax idle_state\<bar> \<le> 2 ^ 900"
    "\<bar>yMin idle_state\<bar> \<le> 2 ^ 900" "\<bar>yMax idle_state\<bar> \<le> 2 ^ 900"
    by (simp_all add: idle_state_simps)
  have x: "(0::int) \<le> 400 \<and> 400 < SCREEN_WIDTH \<and> (- 953::int) \<le> 2 \<and>
    \<bar>xMin idle_state\<bar> \<le> 2 powi 2 \<and> \<bar>xMax idle_state\<bar> \<le> 2 powi 2 \<and>
    2 powi (2 - 47) \<le> xMax idle_state - xMin idle_state"
    by (simp add: idle_state_simps SCREEN_WIDTH_def)
  have y: "(0::int) \<le> 300 \<and> 300 < SCREEN_HEIGHT \<and> (- 953::int) \<le> 1 \<and>
    \<bar>yMin idle_state\<bar> \<le> 2 powi 1 \<and> \<bar>yMax idle_state\<bar> \<le> 2 powi 1 \<and>
    2 powi (1 - 47) \<le> yMax idle_state - yMin idle_state"
    by (simp add: idle_state_simps SCREEN_HEIGHT_def)
  from zoom_preserves_order [OF h, of 400 300 1 4 "[]" "- 2147483648" 2 1] h x y
  show ?thesis by blast
qed

section \<open>Properties of the iteration controller\<close>

lemma trunc_nonneg: "0 \<le> d \<Longrightarrow> trunc d = \<lfloor>d\<rfloor>"
  by (simp add: trunc_def)

lemma double_to_int_nonneg:
  assumes "0 \<le> d" and "d < 2147483648"
  shows "double_to_int d = Some \<lfloor>d\<rfloor>"
proof -
  have "0 \<le> \<lfloor>d\<rfloor>" using assms(1) by simp
  moreover have "\<lfloor>d\<rfloor> < 2147483648" using assms(2) by (simp add: floor_less_iff)
  ultimately show ?thesis
    using assms(1) by (simp add: double_to_int_def trunc_nonneg)
qed

lemma double_to_int_overflow:
  assumes "2147483648 \<le> d"
  shows "double_to_int d = None"
proof -
  have "2147483648 \<le> \<lfloor>d\<rfloor>" using assms by (simp add: le_floor_iff)
  then show ?thesis
    using assms by (simp add: double_to_int_def trunc_def)
qed

lemma floor_clamp:
  "\<lfloor>clamp v 100 2000\<rfloor> =
   (let m = \<lfloor>v\<rfloor>; m1 = (if m < 100 then 100 else m) in if m1 > 2000 then 2000 else m1)"
proof -
  define m where "m = \<lfloor>v\<rfloor>"
  consider "v < 100" | "100 \<le> v" "v \<le> 2000" | "2000 < v" by linarith
  then have "\<lfloor>clamp v 100 2000\<rfloor> =
    (let m1 = (if m < 100 then 100 else m) in if m1 > 2000 then 2000 else m1)"
  proof cases
    case 1
    then have "m < 100" by (simp add: m_def floor_less_iff)
    with 1 show ?thesis by (simp add: clamp_def)
  next
    case 2
    then have "100 \<le> m" "m \<le> 2000" by (simp_all add: m_def le_floor_iff floor_le_iff)
    with 2 show ?thesis by (simp add: clamp_def m_def [symmetric])
  next
    case 3
    then have "2000 \<le> m" by (simp add: m_def le_floor_iff)
    with 3 show ?thesis by (simp add: clamp_def)
  qed
  then show ?thesis by (simp add: m_def Let_def)
qed

text \<open>The value that is converted to \<^verbatim>\<open>int\<close> is never negative.\<close>

lemma budget_value_nonneg:
  assumes "0 < w"
  shows "0 \<le> dmul 100 (dsqrt (ddiv (fl 3.5) w))"
proof -
  have "0 \<le> fl 3.5 / w" using assms by (simp add: fl_nonneg)
  then have "0 \<le> ddiv (fl 3.5) w" by (simp add: ddiv_def fl_nonneg)
  then have "0 \<le> dsqrt (ddiv (fl 3.5) w)" by (simp add: dsqrt_def fl_nonneg)
  then show ?thesis by (simp add: dmul_def fl_nonneg)
qed

lemma iterationBudget_defined:
  assumes "0 < w" and "dmul 100 (dsqrt (ddiv (fl 3.5) w)) < 2147483648"
  shows "iterationBudget r w = \<lfloor>clamp (dmul 100 (dsqrt (ddiv (fl 3.5) w))) 100 2000\<rfloor>"
proof -
  have "double_to_int (dmul 100 (dsqrt (ddiv (fl 3.5) w))) =
        Some \<lfloor>dmul 100 (dsqrt (ddiv (fl 3.5) w))\<rfloor>"
    using budget_value_nonneg [OF assms(1)] assms(2) by (rule double_to_int_nonneg)
  then show ?thesis
    using assms(1) by (simp add: iterationBudget_def floor_clamp Let_def)
qed

lemma budget_value_bracket:
  assumes "0 < w" and "0 \<le> a" and "a\<^sup>2 \<le> 3.5 / w" and "3.5 / w \<le> b\<^sup>2" and "0 \<le> b"
    and "fl (a\<^sup>2) = a\<^sup>2" and "fl (b\<^sup>2) = b\<^sup>2" and "fl a = a" and "fl b = b"
    and "fl (100 * a) = 100 * a" and "fl (100 * b) = 100 * b"
  shows "100 * a \<le> dmul 100 (dsqrt (ddiv (fl 3.5) w))"
    and "dmul 100 (dsqrt (ddiv (fl 3.5) w)) \<le> 100 * b"
proof -
  have f: "fl 3.5 = 3.5" using fl_repr [of 7 "- 1"] by simp
  have z: "a\<^sup>2 \<le> ddiv (fl 3.5) w" "ddiv (fl 3.5) w \<le> b\<^sup>2"
    unfolding ddiv_def f using assms(3,4,6,7) by (rule fl_bracket)+
  have "a \<le> sqrt (ddiv (fl 3.5) w)"
    using z(1) by (rule real_le_rsqrt)
  moreover have "sqrt (ddiv (fl 3.5) w) \<le> b"
    using z(2) assms(5) by (intro real_le_lsqrt) simp_all
  ultimately have q: "a \<le> dsqrt (ddiv (fl 3.5) w)" "dsqrt (ddiv (fl 3.5) w) \<le> b"
    unfolding dsqrt_def using assms(8,9) by (rule fl_bracket)+
  have "100 * a \<le> 100 * dsqrt (ddiv (fl 3.5) w)" using q(1) by simp
  moreover have "100 * dsqrt (ddiv (fl 3.5) w) \<le> 100 * b" using q(2) by simp
  ultimately show "100 * a \<le> dmul 100 (dsqrt (ddiv (fl 3.5) w))"
    and "dmul 100 (dsqrt (ddiv (fl 3.5) w)) \<le> 100 * b"
    unfolding dmul_def using assms(10,11) by (rule fl_bracket)+
qed


lemma budget_lower_clamp:
  assumes "3.5 \<le> w"
  shows "iterationBudget r w = 100"
proof -
  have w: "0 < w" using assms by simp
  have "dmul 100 (dsqrt (ddiv (fl 3.5) w)) \<le> 100 * 1"
    using w assms by (intro budget_value_bracket(2) [where a = 0]) (simp_all add: fl_values)
  then have le: "dmul 100 (dsqrt (ddiv (fl 3.5) w)) \<le> 100" by simp
  then have "iterationBudget r w = \<lfloor>clamp (dmul 100 (dsqrt (ddiv (fl 3.5) w))) 100 2000\<rfloor>"
    using w by (intro iterationBudget_defined) simp_all
  also have "\<dots> = 100"
    using le by (simp add: clamp_def)
  finally show ?thesis .
qed

lemma budget_upper_clamp:
  assumes "3.5 / 2 ^ 42 \<le> w" and "w \<le> 3.5 / 400"
  shows "iterationBudget r w = 2000"
proof -
  have w: "0 < w" using assms(1) by (simp add: field_simps) 
  have lo: "400 \<le> 3.5 / w" using assms(2) w by (simp add: field_simps)
  have hi: "3.5 / w \<le> 2 ^ 42" using assms(1) w by (simp add: field_simps)
  have b: "100 * 20 \<le> dmul 100 (dsqrt (ddiv (fl 3.5) w))"
    "dmul 100 (dsqrt (ddiv (fl 3.5) w)) \<le> 100 * 2 ^ 21"
    using w lo hi
    by (intro budget_value_bracket [where a = 20 and b = "2 ^ 21"]; simp add: fl_values)+
  then have "iterationBudget r w = \<lfloor>clamp (dmul 100 (dsqrt (ddiv (fl 3.5) w))) 100 2000\<rfloor>"
    using w by (intro iterationBudget_defined) simp_all
  also have "\<dots> = 2000"
    using b(1) by (simp add: clamp_def)
  finally show ?thesis .
qed

lemma budget_after_one_zoom:
  "iterationBudget r (788129934789837 / 281474976710656) = 111"
  "budget_spec (788129934789837 / 281474976710656) \<noteq> 111"
proof -
  let ?w = "788129934789837 / 281474976710656 :: real"
  let ?v = "dmul 100 (dsqrt (ddiv (fl 3.5) ?w))"
  have b: "100 * (1137 / 1024) \<le> ?v" "?v \<le> 100 * (1145 / 1024)"
    by (intro budget_value_bracket [where a = "1137 / 1024" and b = "1145 / 1024"];
        simp add: fl_values power2_eq_square)+
  then have "iterationBudget r ?w = \<lfloor>clamp ?v 100 2000\<rfloor>"
    by (intro iterationBudget_defined) simp_all
  also have "\<dots> = \<lfloor>?v\<rfloor>"
    using b by (simp add: clamp_def)
  also have "\<dots> = 111"
    using b by (simp add: floor_eq_iff)
  finally show "iterationBudget r ?w = 111" .
  have "(111 / 100)\<^sup>2 < 3.5 / ?w" by (simp add: power2_eq_square)
  then have "111 / 100 < sqrt (3.5 / ?w)" by (rule real_less_rsqrt)
  then have lo: "111 < 100 * sqrt (3.5 / ?w)" by simp
  have "3.5 / ?w < (112 / 100)\<^sup>2" by (simp add: power2_eq_square)
  then have "sqrt (3.5 / ?w) < 112 / 100" by (intro real_less_lsqrt) simp_all
  then have hi: "100 * sqrt (3.5 / ?w) < 112" by simp
  show "budget_spec ?w \<noteq> 111"
    using lo hi by (simp add: budget_spec_def clamp_def)
qed

text \<open>
  Below the widths of the upper clamp the converted value does not fit \<^verbatim>\<open>int\<close>: on x86-64
  the budget then falls back to 100, where the formula of the specification gives 2000.
\<close>

lemma budget_at_overflow:
  "iterationBudget (- 2147483648) (1 / 2 ^ 60) = 100" "budget_spec (1 / 2 ^ 60) = 2000"
proof -
  let ?w = "1 / 2 ^ 60 :: real"
  have "100 * 2 ^ 30 \<le> dmul 100 (dsqrt (ddiv (fl 3.5) ?w))"
    by (intro budget_value_bracket(1) [where a = "2 ^ 30" and b = "2 ^ 31"];
        simp add: fl_values)
  then have "2147483648 \<le> dmul 100 (dsqrt (ddiv (fl 3.5) ?w))" by simp
  then have "double_to_int (dmul 100 (dsqrt (ddiv (fl 3.5) ?w))) = None"
    by (rule double_to_int_overflow)
  then show "iterationBudget (- 2147483648) ?w = 100"
    by (simp add: iterationBudget_def Let_def)
  have "(20::real)\<^sup>2 \<le> 3.5 / ?w" by simp
  then have "20 \<le> sqrt (3.5 / ?w)" by (rule real_le_rsqrt)
  then show "budget_spec ?w = 2000"
    by (simp add: budget_spec_def clamp_def)
qed

text \<open>
  After two wheel-ups with the cursor at column 0 the width is the binary64 number nearest
  to 2.24, a little above it.  The quotient \<open>3.5 / width\<close> rounds to \<open>1.5625 - 2\<^sup>-\<^sup>5\<^sup>2\<close>, whose
  square root rounds to exactly 1.25: the budget is 125, above the value of the formula.
\<close>

lemma dsqrt_sample: "dsqrt (7036874417766399 / 4503599627370496) = 5 / 4"
proof -
  let ?z = "7036874417766399 / 4503599627370496 :: real"
  have lo: "11258999068426239 / 9007199254740992 < sqrt ?z"
    by (rule real_less_rsqrt) (simp add: power2_eq_square)
  have hi: "sqrt ?z < 5 / 4"
    by (rule real_less_lsqrt) (simp_all add: power2_eq_square)
  have "fl (sqrt ?z) = real_of_int 5629499534213120 * 2 powi (0 - 52)"
    using lo hi by (intro fl_near) simp_all
  then show ?thesis by (simp add: dsqrt_def)
qed

lemma budget_after_two_zooms:
  "iterationBudget r (1261007895663739 / 562949953421312) = 125"
  "budget_spec (1261007895663739 / 562949953421312) < 125"
proof -
  let ?w = "1261007895663739 / 562949953421312 :: real"
  have z: "ddiv (fl 3.5) ?w = 7036874417766399 / 4503599627370496"
    by (simp add: ddiv_def fl_values)
  have v: "dmul 100 (dsqrt (ddiv (fl 3.5) ?w)) = 125"
    unfolding z dsqrt_sample by (simp add: dmul_def fl_values)
  have "iterationBudget r ?w = \<lfloor>clamp (dmul 100 (dsqrt (ddiv (fl 3.5) ?w))) 100 2000\<rfloor>"
  proof (rule iterationBudget_defined)
    show "0 < ?w" by simp
    show "dmul 100 (dsqrt (ddiv (fl 3.5) ?w)) < 2147483648" unfolding v by simp
  qed
  then show "iterationBudget r ?w = 125" unfolding v by (simp add: clamp_def)
  have "sqrt (3.5 / ?w) < 5 / 4"
    by (rule real_less_lsqrt) (simp_all add: power2_eq_square)
  then have "100 * sqrt (3.5 / ?w) < 125" by simp
  then show "budget_spec ?w < 125"
    by (simp add: budget_spec_def clamp_def)
qed

text \<open>The budget lies in \<open>[100, 2000]\<close> whatever the width and the conversion yield.\<close>

lemma iterationBudget_range:
  "100 \<le> iterationBudget r w" "iterationBudget r w \<le> 2000"
  by (simp_all add: iterationBudget_def Let_def)

lemma updateIterations_range:
  "100 \<le> MAX_ITERATIONS (updateIterations r s)" "MAX_ITERATIONS (updateIterations r s) \<le> 2000"
  by (simp_all add: updateIterations_def iterationBudget_range)

text \<open>
  Claim C4 as stated (the recomputed budget equals
  \<open>clamp (100 * sqrt (3.5 / w)) 100 2000\<close> for every width \<open>w > 0\<close>) fails.  After one
  wheel-up at the centre of the window the width is positive and the budget is 111,
  which is not the value of the formula (111.80...): the value is truncated.  After two
  wheel-ups at column 0 the width is positive and the budget is 125, while the formula
  gives less than 125: the budget is not the truncated value of the formula either, it is
  computed in rounded arithmetic.
\<close>

theorem iteration_budget_counterexample:
  "0 < dsub (xMax (zoomViewport 400 300 1 idle_state)) (xMin (zoomViewport 400 300 1 idle_state)) \<and>
   MAX_ITERATIONS (updateIterations (- 2147483648) (zoomViewport 400 300 1 idle_state)) = 111 \<and>
   budget_spec
     (dsub (xMax (zoomViewport 400 300 1 idle_state)) (xMin (zoomViewport 400 300 1 idle_state)))
     \<noteq> 111 \<and>
   0 < dsub (xMax (zoomViewport 0 300 1 (zoomViewport 0 300 1 idle_state)))
            (xMin (zoomViewport 0 300 1 (zoomViewport 0 300 1 idle_state))) \<and>
   MAX_ITERATIONS
     (updateIterations (- 2147483648) (zoomViewport 0 300 1 (zoomViewport 0 300 1 idle_state)))
     = 125 \<and>
   budget_spec
     (dsub (xMax (zoomViewport 0 300 1 (zoomViewport 0 300 1 idle_state)))
           (xMin (zoomViewport 0 300 1 (zoomViewport 0 300 1 idle_state))))
     < 125"
  by (simp add: updateIterations_def width_once width_left_twice budget_after_one_zoom
      budget_after_two_zooms)

lemma budget_at_reference_zoom:
  "iterationBudget r 3.5 = 100" "iterationBudget r (fl (3.5 / 10 ^ 8)) = 2000"
proof -
  show "iterationBudget r 3.5 = 100" by (rule budget_lower_clamp) simp
  have b: "1 / 2 ^ 30 \<le> fl (3.5 / 10 ^ 8)" "fl (3.5 / 10 ^ 8) \<le> 1 / 2 ^ 20"
    by (rule fl_bracket [where a = "1 / 2 ^ 30" and b = "1 / 2 ^ 20"]; simp add: fl_values)+
  show "iterationBudget r (fl (3.5 / 10 ^ 8)) = 2000"
  proof (rule budget_upper_clamp)
    show "3.5 / 2 ^ 42 \<le> fl (3.5 / 10 ^ 8)" using b(1) by simp
    show "fl (3.5 / 10 ^ 8) \<le> 3.5 / 400" using b(2) by simp
  qed
qed

text \<open>
  The rounded value and the value of the formula.  Each of the three roundings changes
  its argument by at most \<open>2\<^sup>-\<^sup>5\<^sup>3\<close> of it, and the square root does not enlarge a relative
  error; below \<open>2\<^sup>3\<^sup>1\<close> the two values differ by at most \<open>2\<^sup>-\<^sup>1\<^sup>9\<close>.
\<close>

lemma sqrt_scale:
  assumes "0 \<le> z" and "0 \<le> c" and "c \<le> 1"
  shows "sqrt z * (1 - c) \<le> sqrt (z * (1 - c))" and "sqrt (z * (1 + c)) \<le> sqrt z * (1 + c)"
proof -
  have "(1 - c)\<^sup>2 \<le> 1 - c"
    using assms(2,3) mult_left_le [of "1 - c" "1 - c"] by (simp add: power2_eq_square)
  then have "1 - c \<le> sqrt (1 - c)" by (rule real_le_rsqrt)
  then have "sqrt z * (1 - c) \<le> sqrt z * sqrt (1 - c)"
    using assms(1) by (intro mult_left_mono) simp_all
  then show "sqrt z * (1 - c) \<le> sqrt (z * (1 - c))" by (simp add: real_sqrt_mult)
  have "1 * (1 + c) \<le> (1 + c) * (1 + c)"
    using assms(2) by (intro mult_right_mono) simp_all
  then have "1 + c \<le> (1 + c)\<^sup>2" by (simp add: power2_eq_square)
  then have "sqrt (1 + c) \<le> 1 + c" using assms(2) by (intro real_le_lsqrt) simp_all
  then have "sqrt z * sqrt (1 + c) \<le> sqrt z * (1 + c)"
    using assms(1) by (intro mult_left_mono) simp_all
  then show "sqrt (z * (1 + c)) \<le> sqrt z * (1 + c)" by (simp add: real_sqrt_mult)
qed

lemma budget_value_rel:
  assumes "0 < w" and "w \<le> 2 ^ 901"
  shows "100 * sqrt (3.5 / w) * ((1 - 1 / 2 ^ 53) * (1 - 1 / 2 ^ 53) * (1 - 1 / 2 ^ 53))
           \<le> dmul 100 (dsqrt (ddiv (fl 3.5) w))"
    and "dmul 100 (dsqrt (ddiv (fl 3.5) w))
           \<le> 100 * sqrt (3.5 / w) * ((1 + 1 / 2 ^ 53) * (1 + 1 / 2 ^ 53) * (1 + 1 / 2 ^ 53))"
proof -
  define c :: real where "c = 1 / 2 ^ 53"
  define L :: real where "L = 2 powi (- 1022)"
  define K :: real where "K = 2 powi (- 450)"
  define z where "z = 3.5 / w"
  define z' where "z' = fl z"
  define T where "T = sqrt z'"
  define s' where "s' = fl T"
  define S where "S = sqrt z"
  have c: "0 \<le> c" "c \<le> 1" "0 \<le> 1 - c" "0 \<le> 1 + c" by (simp_all add: c_def)
  have L: "0 < L" by (simp add: L_def)
  have LK: "L \<le> K" unfolding L_def K_def by (intro power_int_increasing) simp_all
  have KK: "K\<^sup>2 = 2 powi (- 900)"
    using power_int_add [of "2::real" "- 450" "- 450"] by (simp add: K_def power2_eq_square)
  have K1: "K \<le> 1" using power_int_increasing [of "- 450" 0 "2::real"] by (simp add: K_def)
  have K0: "0 < K" by (simp add: K_def)
  have Kr: "fl K = K" "fl (K\<^sup>2) = K\<^sup>2" unfolding KK unfolding K_def by (rule fl_pow2; simp)+
  have f: "fl 3.5 = 3.5" using fl_repr [of 7 "- 1"] by simp
  have "(2::real) powi (- 900) = 1 / 2 ^ 900" by (simp add: power_int_minus inverse_eq_divide)
  moreover have "1 / 2 ^ 900 \<le> 3.5 / (2 ^ 901 :: real)" by simp
  moreover have "3.5 / 2 ^ 901 \<le> 3.5 / w"
    using assms by (intro divide_left_mono) simp_all
  ultimately have z: "K\<^sup>2 \<le> z" unfolding KK z_def by linarith
  have "L \<le> K\<^sup>2" unfolding KK L_def by (intro power_int_increasing) simp_all
  then have Lz: "L \<le> z" using z by linarith
  have z0: "0 \<le> z" using L Lz by linarith
  have zb: "z * (1 - c) \<le> z'" "z' \<le> z * (1 + c)"
    unfolding z'_def c_def using Lz unfolding L_def by (rule fl_rel_pos)+
  have z'K: "K\<^sup>2 \<le> z'" unfolding z'_def using fl_mono [OF z] Kr by simp
  have TK: "K \<le> T" unfolding T_def using z'K by (rule real_le_rsqrt)
  have "sqrt (z * (1 - c)) \<le> T" unfolding T_def using zb(1) by simp
  then have T1: "S * (1 - c) \<le> T" using sqrt_scale(1) [OF z0 c(1,2)] by (simp add: S_def)
  have "T \<le> sqrt (z * (1 + c))" unfolding T_def using zb(2) by simp
  then have T2: "T \<le> S * (1 + c)" using sqrt_scale(2) [OF z0 c(1,2)] by (simp add: S_def)
  have LT: "L \<le> T" using LK TK by linarith
  have sb: "T * (1 - c) \<le> s'" "s' \<le> T * (1 + c)"
    unfolding s'_def c_def using LT unfolding L_def by (rule fl_rel_pos)+
  have s'K: "K \<le> s'" unfolding s'_def using fl_mono [OF TK] Kr by simp
  have "L \<le> 100 * s'" using LK s'K K0 by linarith
  then have vb: "100 * s' * (1 - c) \<le> fl (100 * s')" "fl (100 * s') \<le> 100 * s' * (1 + c)"
    unfolding c_def L_def by (rule fl_rel_pos)+
  have "S * (1 - c) * (1 - c) \<le> T * (1 - c)" using T1 c(3) by (rule mult_right_mono)
  then have "S * (1 - c) * (1 - c) \<le> s'" using sb(1) by linarith
  then have "100 * (S * (1 - c) * (1 - c)) * (1 - c) \<le> 100 * s' * (1 - c)"
    using c(3) by (intro mult_right_mono) simp_all
  then have lo: "100 * S * ((1 - c) * (1 - c) * (1 - c)) \<le> fl (100 * s')"
    using vb(1) by (simp add: mult.assoc)
  have "T * (1 + c) \<le> S * (1 + c) * (1 + c)" using T2 c(4) by (rule mult_right_mono)
  then have "s' \<le> S * (1 + c) * (1 + c)" using sb(2) by linarith
  then have "100 * s' * (1 + c) \<le> 100 * (S * (1 + c) * (1 + c)) * (1 + c)"
    using c(4) by (intro mult_right_mono) simp_all
  then have hi: "fl (100 * s') \<le> 100 * S * ((1 + c) * (1 + c) * (1 + c))"
    using vb(2) by (simp add: mult.assoc)
  have v: "dmul 100 (dsqrt (ddiv (fl 3.5) w)) = fl (100 * s')"
    by (simp only: dmul_def dsqrt_def ddiv_def f s'_def T_def z'_def z_def)
  show "100 * sqrt (3.5 / w) * ((1 - 1 / 2 ^ 53) * (1 - 1 / 2 ^ 53) * (1 - 1 / 2 ^ 53))
           \<le> dmul 100 (dsqrt (ddiv (fl 3.5) w))"
    unfolding v using lo unfolding S_def z_def c_def .
  show "dmul 100 (dsqrt (ddiv (fl 3.5) w))
           \<le> 100 * sqrt (3.5 / w) * ((1 + 1 / 2 ^ 53) * (1 + 1 / 2 ^ 53) * (1 + 1 / 2 ^ 53))"
    unfolding v using hi unfolding S_def z_def c_def .
qed


lemma budget_value_close:
  assumes "0 < w" and "w \<le> 2 ^ 901" and "dmul 100 (dsqrt (ddiv (fl 3.5) w)) < 2147483648"
  shows "\<bar>dmul 100 (dsqrt (ddiv (fl 3.5) w)) - 100 * sqrt (3.5 / w)\<bar> \<le> 1 / 2 ^ 19"
proof -
  define v where "v = 100 * sqrt (3.5 / w)"
  define v' where "v' = dmul 100 (dsqrt (ddiv (fl 3.5) w))"
  define k0 :: real where "k0 = (1 - 1 / 2 ^ 53) * (1 - 1 / 2 ^ 53) * (1 - 1 / 2 ^ 53)"
  define k1 :: real where "k1 = (1 + 1 / 2 ^ 53) * (1 + 1 / 2 ^ 53) * (1 + 1 / 2 ^ 53)"
  define d :: real where "d = 4 / 2 ^ 53"
  have v0: "0 \<le> v" using assms(1) by (simp add: v_def)
  have k: "1 / 2 \<le> k0" "1 - d \<le> k0" "k1 \<le> 1 + d" by (simp_all add: k0_def k1_def d_def)
  have d: "0 \<le> d" "4294967296 * d = 1 / 2 ^ 19" by (simp_all add: d_def)
  have r: "v * k0 \<le> v'" "v' \<le> v * k1"
    unfolding v_def v'_def k0_def k1_def using assms(1,2) by (rule budget_value_rel)+
  have a: "v' < 2147483648" unfolding v'_def by (rule assms(3))
  have "v * (1 / 2) \<le> v * k0" using k(1) v0 by (rule mult_left_mono)
  then have vb: "v \<le> 4294967296" using r(1) a by linarith
  define m where "m = v * d"
  have "v * (1 - d) \<le> v * k0" using k(2) v0 by (rule mult_left_mono)
  then have lo: "v - m \<le> v'" using r(1) by (simp add: algebra_simps m_def)
  have "v * k1 \<le> v * (1 + d)" using k(3) v0 by (rule mult_left_mono)
  then have hi: "v' \<le> v + m" using r(2) by (simp add: algebra_simps m_def)
  have "v * d \<le> 4294967296 * d" using vb d(1) by (rule mult_right_mono)
  then have "m \<le> 1 / 2 ^ 19" unfolding d(2) m_def .
  then have "\<bar>v' - v\<bar> \<le> 1 / 2 ^ 19" using lo hi by linarith
  then show ?thesis unfolding v_def v'_def .
qed

lemma clamp_close: "\<bar>clamp a 100 2000 - clamp b 100 2000\<bar> \<le> \<bar>a - b\<bar>"
  by (simp add: clamp_def)

lemma iterationBudget_close:
  assumes "0 < w" and "w \<le> 2 ^ 901" and "dmul 100 (dsqrt (ddiv (fl 3.5) w)) < 2147483648"
  shows "budget_spec w - 1 - 1 / 2 ^ 19 < real_of_int (iterationBudget r w)"
    and "real_of_int (iterationBudget r w) \<le> budget_spec w + 1 / 2 ^ 19"
proof -
  define y where "y = clamp (dmul 100 (dsqrt (ddiv (fl 3.5) w))) 100 2000"
  have b: "iterationBudget r w = \<lfloor>y\<rfloor>"
    unfolding y_def using assms(1,3) by (rule iterationBudget_defined)
  have "\<bar>y - budget_spec w\<bar> \<le> \<bar>dmul 100 (dsqrt (ddiv (fl 3.5) w)) - 100 * sqrt (3.5 / w)\<bar>"
    unfolding y_def budget_spec_def by (rule clamp_close)
  then have c: "\<bar>y - budget_spec w\<bar> \<le> 1 / 2 ^ 19"
    using budget_value_close [OF assms] by linarith
  have f: "real_of_int \<lfloor>y\<rfloor> \<le> y" "y < real_of_int \<lfloor>y\<rfloor> + 1" by linarith+
  show "budget_spec w - 1 - 1 / 2 ^ 19 < real_of_int (iterationBudget r w)"
    unfolding b using c f by linarith
  show "real_of_int (iterationBudget r w) \<le> budget_spec w + 1 / 2 ^ 19"
    unfolding b using c f by linarith
qed

text \<open>
  Claim C4, amended.  For every width \<open>w > 0\<close> whose value \<open>100 * sqrt (3.5 / w)\<close>,
  computed in binary64 (the quotient, the root and the product each rounded to nearest),
  fits \<^verbatim>\<open>int\<close>, the recomputed budget is that value clamped to \<open>[100, 2000]\<close> and
  truncated to an integer.  For widths up to \<open>2\<^sup>9\<^sup>0\<^sup>1\<close> it is the value of the formula
  \<open>clamp (100 * sqrt (3.5 / w)) 100 2000\<close> truncated, up to the rounding: more than the
  formula minus \<open>1 + 2\<^sup>-\<^sup>1\<^sup>9\<close> and at most the formula plus \<open>2\<^sup>-\<^sup>1\<^sup>9\<close>.  It is 100 for every
  width from 3.5 on, in particular at the reference width, and 2000 for every width from
  \<open>3.5 / 2\<^sup>4\<^sup>2\<close> to \<open>3.5 / 400\<close>, in particular at 100,000,000x zoom; \<^verbatim>\<open>updateIterations\<close>
  stores the budget of the current width and changes nothing else.
\<close>

theorem iteration_budget:
  "(0 < w \<and> dmul 100 (dsqrt (ddiv (fl 3.5) w)) < 2147483648 \<longrightarrow>
      iterationBudget r w = \<lfloor>clamp (dmul 100 (dsqrt (ddiv (fl 3.5) w))) 100 2000\<rfloor>) \<and>
   (0 < w \<and> w \<le> 2 ^ 901 \<and> dmul 100 (dsqrt (ddiv (fl 3.5) w)) < 2147483648 \<longrightarrow>
      budget_spec w - 1 - 1 / 2 ^ 19 < real_of_int (iterationBudget r w) \<and>
      real_of_int (iterationBudget r w) \<le> budget_spec w + 1 / 2 ^ 19) \<and>
   (3.5 \<le> w \<longrightarrow> iterationBudget r w = 100) \<and>
   (3.5 / 2 ^ 42 \<le> w \<and> w \<le> 3.5 / 400 \<longrightarrow> iterationBudget r w = 2000) \<and>
   iterationBudget r 3.5 = 100 \<and>
   iterationBudget r (fl (3.5 / 10 ^ 8)) = 2000 \<and>
   updateIterations r s = s\<lparr>MAX_ITERATIONS := iterationBudget r (dsub (xMax s) (xMin s))\<rparr>"
proof -
  have "0 < w \<and> dmul 100 (dsqrt (ddiv (fl 3.5) w)) < 2147483648 \<longrightarrow>
      iterationBudget r w = \<lfloor>clamp (dmul 100 (dsqrt (ddiv (fl 3.5) w))) 100 2000\<rfloor>"
    using iterationBudget_defined [of w r] by blast
  moreover have "0 < w \<and> w \<le> 2 ^ 901 \<and> dmul 100 (dsqrt (ddiv (fl 3.5) w)) < 2147483648 \<longrightarrow>
      budget_spec w - 1 - 1 / 2 ^ 19 < real_of_int (iterationBudget r w) \<and>
      real_of_int (iterationBudget r w) \<le> budget_spec w + 1 / 2 ^ 19"
    using iterationBudget_close [of w r] by blast
  moreover have "3.5 \<le> w \<longrightarrow> iterationBudget r w = 100"
    using budget_lower_clamp [of w r] by blast
  moreover have "3.5 / 2 ^ 42 \<le> w \<and> w \<le> 3.5 / 400 \<longrightarrow> iterationBudget r w = 2000"
    using budget_upper_clamp [of w r] by blast
  moreover have "updateIterations r s =
      s\<lparr>MAX_ITERATIONS := iterationBudget r (dsub (xMax s) (xMin s))\<rparr>"
    by (simp add: updateIterations_def)
  ultimately show ?thesis using budget_at_reference_zoom [of r] by blast
qed

theorem iteration_budget_witness:
  "(0::real) < 7 / 8 \<and> (7 / 8 :: real) \<le> 2 ^ 901 \<and>
   dmul 100 (dsqrt (ddiv (fl 3.5) (7 / 8))) < 2147483648 \<and>
   iterationBudget (- 2147483648) (7 / 8) = 200 \<and>
   budget_spec (7 / 8) - 1 - 1 / 2 ^ 19 < real_of_int (iterationBudget (- 2147483648) (7 / 8)) \<and>
   real_of_int (iterationBudget (- 2147483648) (7 / 8)) \<le> budget_spec (7 / 8) + 1 / 2 ^ 19 \<and>
   (3.5::real) \<le> 4 \<and> iterationBudget (- 2147483648) 4 = 100 \<and>
   (3.5::real) / 2 ^ 42 \<le> 1 / 1024 \<and> (1::real) / 1024 \<le> 3.5 / 400 \<and>
   iterationBudget (- 2147483648) (1 / 1024) = 2000"
proof -
  have v: "dmul 100 (dsqrt (ddiv (fl 3.5) (7 / 8))) = 200"
    by (simp add: dmul_def dsqrt_def ddiv_def fl_values)
  have h0: "(7 / 8 :: real) \<le> 2 ^ 901" by simp
  have h1: "(0::real) < 7 / 8 \<and> dmul 100 (dsqrt (ddiv (fl 3.5) (7 / 8))) < 2147483648"
    using v by simp
  have h2: "(3.5::real) \<le> 4" by simp
  have h3: "(3.5::real) / 2 ^ 42 \<le> 1 / 1024 \<and> (1::real) / 1024 \<le> 3.5 / 400" by simp
  note t = iteration_budget [of "7 / 8" "- 2147483648"]
  have "iterationBudget (- 2147483648) (7 / 8) =
        \<lfloor>clamp (dmul 100 (dsqrt (ddiv (fl 3.5) (7 / 8)))) 100 2000\<rfloor>"
    using t h1 by blast
  then have a: "iterationBudget (- 2147483648) (7 / 8) = 200"
    using v by (simp add: clamp_def)
  have a': "budget_spec (7 / 8) - 1 - 1 / 2 ^ 19
              < real_of_int (iterationBudget (- 2147483648) (7 / 8)) \<and>
            real_of_int (iterationBudget (- 2147483648) (7 / 8))
              \<le> budget_spec (7 / 8) + 1 / 2 ^ 19"
    using t h0 h1 by blast
  have b: "iterationBudget (- 2147483648) 4 = 100"
    using iteration_budget [of 4 "- 2147483648"] h2 by blast
  have c: "iterationBudget (- 2147483648) (1 / 1024) = 2000"
    using iteration_budget [of "1 / 1024" "- 2147483648"] h3 by blast
  from h0 h1 h2 h3 a a' b c show ?thesis by blast
qed

end
